theory Spec2Isabelle
  imports Complex_Main
begin

section \<open>JavaScript numbers\<close>

text \<open>
  The amortization engine \<^verbatim>\<open>computeMortgage\<close> of \<^verbatim>\<open>src/modules/calculations.js\<close> works on
  JavaScript numbers: IEEE doubles. A number is embedded as a real or one of the three
  non-finite values of the language. The engine is embedded with the rounding of every
  arithmetic result handed to it as a function \<open>rd\<close>: with \<open>rd\<close> rounding to the nearest
  double it computes in the arithmetic of the code, and with nothing rounded it is the same
  computation over exact arithmetic, which is also written out on its own. The claims about
  numbers are stated on the engine with rounding; what holds over exact arithmetic only is
  stated for the rounding that rounds nothing. The sign of zero is not modelled: a quotient
  by zero takes the divisor to be \<^verbatim>\<open>+0\<close>.
\<close>

datatype jsnum = Fin real | PInf | NInf | NaN

instantiation jsnum :: "{uminus, plus, minus, times, inverse}"
begin

fun uminus_jsnum :: "jsnum \<Rightarrow> jsnum" where
  "uminus_jsnum (Fin a) = Fin (- a)"
| "uminus_jsnum PInf = NInf"
| "uminus_jsnum NInf = PInf"
| "uminus_jsnum NaN = NaN"

fun plus_jsnum :: "jsnum \<Rightarrow> jsnum \<Rightarrow> jsnum" where
  "plus_jsnum (Fin a) (Fin b) = Fin (a + b)"
| "plus_jsnum NaN _ = NaN"
| "plus_jsnum _ NaN = NaN"
| "plus_jsnum PInf NInf = NaN"
| "plus_jsnum NInf PInf = NaN"
| "plus_jsnum PInf _ = PInf"
| "plus_jsnum _ PInf = PInf"
| "plus_jsnum NInf _ = NInf"
| "plus_jsnum _ NInf = NInf"

definition minus_jsnum :: "jsnum \<Rightarrow> jsnum \<Rightarrow> jsnum" where
  "minus_jsnum a b = a + (- b)"

fun times_jsnum :: "jsnum \<Rightarrow> jsnum \<Rightarrow> jsnum" where
  "times_jsnum (Fin a) (Fin b) = Fin (a * b)"
| "times_jsnum NaN _ = NaN"
| "times_jsnum _ NaN = NaN"
| "times_jsnum PInf (Fin b) = (if b = 0 then NaN else if 0 < b then PInf else NInf)"
| "times_jsnum NInf (Fin b) = (if b = 0 then NaN else if 0 < b then NInf else PInf)"
| "times_jsnum (Fin a) PInf = (if a = 0 then NaN else if 0 < a then PInf else NInf)"
| "times_jsnum (Fin a) NInf = (if a = 0 then NaN else if 0 < a then NInf else PInf)"
| "times_jsnum PInf PInf = PInf"
| "times_jsnum PInf NInf = NInf"
| "times_jsnum NInf PInf = NInf"
| "times_jsnum NInf NInf = PInf"

fun divide_jsnum :: "jsnum \<Rightarrow> jsnum \<Rightarrow> jsnum" where
  "divide_jsnum (Fin a) (Fin b) =
     (if b \<noteq> 0 then Fin (a / b)
      else if a = 0 then NaN else if 0 < a then PInf else NInf)"
| "divide_jsnum NaN _ = NaN"
| "divide_jsnum _ NaN = NaN"
| "divide_jsnum (Fin a) PInf = Fin 0"
| "divide_jsnum (Fin a) NInf = Fin 0"
| "divide_jsnum PInf (Fin b) = (if 0 \<le> b then PInf else NInf)"
| "divide_jsnum NInf (Fin b) = (if 0 \<le> b then NInf else PInf)"
| "divide_jsnum PInf PInf = NaN"
| "divide_jsnum PInf NInf = NaN"
| "divide_jsnum NInf PInf = NaN"
| "divide_jsnum NInf NInf = NaN"

definition inverse_jsnum :: "jsnum \<Rightarrow> jsnum" where
  "inverse_jsnum a = divide (Fin 1) a"

instance ..

end

text \<open>\<^verbatim>\<open>Math.max\<close>: \<^verbatim>\<open>NaN\<close> as soon as one argument is.\<close>

fun Math_max :: "jsnum \<Rightarrow> jsnum \<Rightarrow> jsnum" where
  "Math_max (Fin a) (Fin b) = Fin (max a b)"
| "Math_max NaN _ = NaN"
| "Math_max _ NaN = NaN"
| "Math_max PInf _ = PInf"
| "Math_max _ PInf = PInf"
| "Math_max NInf b = b"
| "Math_max a NInf = a"

text \<open>The comparison \<^verbatim>\<open><=\<close> of two numbers: false as soon as one of them is \<^verbatim>\<open>NaN\<close>.\<close>

fun js_le :: "jsnum \<Rightarrow> jsnum \<Rightarrow> bool" where
  "js_le (Fin a) (Fin b) = (a \<le> b)"
| "js_le NaN _ = False"
| "js_le _ NaN = False"
| "js_le NInf _ = True"
| "js_le _ PInf = True"
| "js_le PInf _ = False"
| "js_le _ NInf = False"

text \<open>The comparison \<^verbatim>\<open>===\<close> of two numbers: \<^verbatim>\<open>NaN\<close> equals nothing, itself included.\<close>

fun js_eq :: "jsnum \<Rightarrow> jsnum \<Rightarrow> bool" where
  "js_eq NaN _ = False"
| "js_eq _ NaN = False"
| "js_eq a b = (a = b)"

text \<open>\<^verbatim>\<open>Number.isFinite\<close>: the number is none of \<^verbatim>\<open>Infinity\<close>, \<^verbatim>\<open>-Infinity\<close> and \<^verbatim>\<open>NaN\<close>.\<close>

fun js_isFinite :: "jsnum \<Rightarrow> bool" where
  "js_isFinite (Fin a) = True"
| "js_isFinite PInf = False"
| "js_isFinite NInf = False"
| "js_isFinite NaN = False"

text \<open>
  \<^verbatim>\<open>Math.round\<close> on a finite number: the nearest integer, a tie going up
  (towards \<open>+\<infinity>\<close>).
\<close>

definition Math_round :: "real \<Rightarrow> int" where
  "Math_round x = \<lfloor>x + 1 / 2\<rfloor>"

section \<open>Rounding to a double\<close>

text \<open>The nearest integer, a tie going to the even one.\<close>

definition round_even :: "real \<Rightarrow> int" where
  "round_even x =
     (let f = \<lfloor>x\<rfloor>; d = x - of_int f
      in if d < 1 / 2 then f else if 1 / 2 < d then f + 1
         else if even f then f else f + 1)"

text \<open>
  The exponent of a double: the largest \<open>e\<close> with \<open>2\<^bsup>e\<^esup> \<le> x\<close> for \<open>x \<ge> 0\<close>, searched upwards
  from \<open>e\<close> in at most \<open>k\<close> steps; from the least exponent \<open>-1022\<close> of a normal double, up
  to \<open>1024\<close> where a double overflows.
\<close>

fun exponent_from :: "nat \<Rightarrow> int \<Rightarrow> real \<Rightarrow> int" where
  "exponent_from 0 e x = e"
| "exponent_from (Suc k) e x =
     (if 2 powi (e + 1) \<le> x then exponent_from k (e + 1) x else e)"

definition exponent64 :: "real \<Rightarrow> int" where
  "exponent64 x = exponent_from 2046 (- 1022) \<bar>x\<bar>"

text \<open>
  A real rounded to binary64, nearest with ties to even: a multiple of the unit in the
  last of 53 binary digits (of \<open>2\<^bsup>-1074\<^esup>\<close> below the normal range), an infinity from
  \<open>2\<^bsup>1024\<^esup>\<close> on.
\<close>

definition binary64 :: "real \<Rightarrow> jsnum" where
  "binary64 x =
     (let ulp = 2 powi (exponent64 x - 52);
          y = of_int (round_even (x / ulp)) * ulp
      in if 2 powi 1024 \<le> \<bar>y\<bar> then (if 0 < x then PInf else NInf) else Fin y)"

text \<open>
  The multiple of the unit in the last place that \<^verbatim>\<open>binary64\<close> takes for \<open>x\<close>, before it
  looks for an overflow.
\<close>

definition nearest64 :: "real \<Rightarrow> real" where
  "nearest64 x =
     of_int (round_even (x / 2 powi (exponent64 x - 52))) * 2 powi (exponent64 x - 52)"

text \<open>
  The result of an arithmetic operation, rounded by \<open>rd\<close>; a non-finite result stays.
  With \<open>rd = Fin\<close> nothing is rounded, with \<open>rd = binary64\<close> the result is the double
  the language returns.
\<close>

fun rounded :: "(real \<Rightarrow> jsnum) \<Rightarrow> jsnum \<Rightarrow> jsnum" where
  "rounded rd (Fin x) = rd x"
| "rounded rd PInf = PInf"
| "rounded rd NInf = NInf"
| "rounded rd NaN = NaN"

section \<open>The data model\<close>

text \<open>
  The argument object \<^verbatim>\<open>{ loanAmount, annualRate, years }\<close>: three finite numbers
  (\<^verbatim>\<open>Number\<close> is the identity on them).
\<close>

record input =
  loanAmount :: real
  annualRate :: real
  years :: real

text \<open>One object of the \<^verbatim>\<open>schedule\<close> array.\<close>

record row =
  year :: int
  payment :: jsnum
  interest :: jsnum
  principal :: jsnum
  endingBalance :: jsnum

record totals =
  payment :: jsnum
  interest :: jsnum
  principal :: jsnum

text \<open>What \<^verbatim>\<open>computeMortgage\<close> returns.\<close>

record result =
  payment :: jsnum
  schedule :: "row list"
  totals :: totals

section \<open>The engine\<close>

text \<open>
  \<^verbatim>\<open>Math.pow\<close> on any base and an integer exponent, the finite results rounded by \<open>rd\<close>
  (the language leaves the accuracy of \<^verbatim>\<open>Math.pow\<close> to the implementation; where the
  exact power is a double there is nothing to round).
\<close>

fun Math_pow_rounded :: "(real \<Rightarrow> jsnum) \<Rightarrow> jsnum \<Rightarrow> int \<Rightarrow> jsnum" where
  "Math_pow_rounded rd (Fin b) e =
     (if 0 \<le> e then rd (b ^ nat e)
      else if b = 0 then PInf
      else rd (1 / b ^ nat (- e)))"
| "Math_pow_rounded rd NaN e = (if e = 0 then Fin 1 else NaN)"
| "Math_pow_rounded rd PInf e = (if e = 0 then Fin 1 else if 0 < e then PInf else Fin 0)"
| "Math_pow_rounded rd NInf e =
     (if e = 0 then Fin 1 else if e < 0 then Fin 0 else if odd e then NInf else PInf)"

text \<open>
  The loop of the zero-rate branch (lines 18 to 23), from the loop head with counter
  \<open>y\<close>: the variables \<^verbatim>\<open>bal\<close> and \<^verbatim>\<open>schedule\<close> are passed and returned, and the result
  of every arithmetic operation is rounded by \<open>rd\<close>.
\<close>

function loop_zero_rounded ::
  "(real \<Rightarrow> jsnum) \<Rightarrow> jsnum \<Rightarrow> int \<Rightarrow> int \<Rightarrow> jsnum \<Rightarrow> row list \<Rightarrow> jsnum \<times> row list" where
  "loop_zero_rounded rd pay n y bal sched =
     (if y \<le> n then
        (let principal_y = (if y = n then bal else pay);
             interest_y = Fin 0;
             bal' = Math_max (Fin 0) (rounded rd (bal - principal_y))
         in loop_zero_rounded rd pay n (y + 1) bal'
              (sched @ [\<lparr>year = y, row.payment = pay, row.interest = interest_y,
                         row.principal = principal_y, endingBalance = bal'\<rparr>]))
      else (bal, sched))"
  by pat_completeness auto
termination
  by (relation "measure (\<lambda>(rd, pay, n, y, bal, sched). nat (n + 1 - y))") auto

text \<open>
  The loop of the positive-rate branch (lines 39 to 57); the state is \<^verbatim>\<open>bal\<close>,
  \<^verbatim>\<open>totalInterest\<close>, \<^verbatim>\<open>totalPrincipal\<close> and \<^verbatim>\<open>schedule\<close>.
\<close>

function loop_rate_rounded ::
  "(real \<Rightarrow> jsnum) \<Rightarrow> jsnum \<Rightarrow> jsnum \<Rightarrow> int \<Rightarrow> int \<Rightarrow> jsnum \<Rightarrow> jsnum \<Rightarrow> jsnum \<Rightarrow> row list
     \<Rightarrow> jsnum \<times> jsnum \<times> jsnum \<times> row list" where
  "loop_rate_rounded rd pay r n y bal totalInterest totalPrincipal sched =
     (if y \<le> n then
        (let interest_y = rounded rd (bal * r);
             principal_y = (if y = n then bal else rounded rd (pay - interest_y));
             bal' = Math_max (Fin 0) (rounded rd (bal - principal_y))
         in loop_rate_rounded rd pay r n (y + 1) bal'
              (rounded rd (totalInterest + interest_y))
              (rounded rd (totalPrincipal + principal_y))
              (sched @ [\<lparr>year = y, row.payment = pay, row.interest = interest_y,
                         row.principal = principal_y, endingBalance = bal'\<rparr>]))
      else (bal, totalInterest, totalPrincipal, sched))"
  by pat_completeness auto
termination
  by (relation "measure (\<lambda>(rd, pay, r, n, y, bal, ti, tp, sched). nat (n + 1 - y))") auto

declare loop_zero_rounded.simps [simp del] loop_rate_rounded.simps [simp del]

text \<open>
  The function, line by line; the three inputs are doubles, and \<^verbatim>\<open>r === 0\<close> is a test on
  the quotient as the arithmetic gives it.
\<close>

definition computeMortgage_rounded :: "(real \<Rightarrow> jsnum) \<Rightarrow> input \<Rightarrow> result" where
  "computeMortgage_rounded rd inp =
     (let P = Fin (loanAmount inp);
          r = rounded rd (Fin (annualRate inp) / Fin 100);
          n = Math_round (years inp)
      in if js_eq r (Fin 0) then
           (let pay = rounded rd (P / Fin (of_int n));
                (bal, sched) = loop_zero_rounded rd pay n 1 P []
            in \<lparr>result.payment = pay, schedule = sched,
                totals = \<lparr>totals.payment = rounded rd (pay * Fin (of_int n)),
                           totals.interest = Fin 0,
                           totals.principal = P\<rparr>\<rparr>)
         else
           (let growth = Math_pow_rounded rd (rounded rd (Fin 1 + r)) n;
                pay = rounded rd (rounded rd (P * rounded rd (r * growth))
                                    / rounded rd (growth - Fin 1));
                (bal, totalInterest, totalPrincipal, sched) =
                   loop_rate_rounded rd pay r n 1 P (Fin 0) (Fin 0) []
            in \<lparr>result.payment = pay, schedule = sched,
                totals = \<lparr>totals.payment = rounded rd (pay * Fin (of_int n)),
                           totals.interest = totalInterest,
                           totals.principal = totalPrincipal\<rparr>\<rparr>))"

section \<open>The engine over exact arithmetic\<close>

text \<open>
  The engine once more with no result rounded: what it computes when every arithmetic
  operation returns its exact result and no power overflows. It is the engine above with
  \<open>Fin\<close> for the rounding; the closed forms of the payment and of the balances hold of it.
\<close>

text \<open>
  \<^verbatim>\<open>Math.pow\<close> over exact arithmetic, on a finite base and an integer exponent: a zero
  base with a negative exponent gives \<^verbatim>\<open>Infinity\<close>.
\<close>

definition Math_pow :: "real \<Rightarrow> int \<Rightarrow> jsnum" where
  "Math_pow b e =
     (if 0 \<le> e then Fin (b ^ nat e)
      else if b = 0 then PInf
      else Fin (1 / b ^ nat (- e)))"

text \<open>The two loops and the function.\<close>

function loop_zero :: "jsnum \<Rightarrow> int \<Rightarrow> int \<Rightarrow> jsnum \<Rightarrow> row list \<Rightarrow> jsnum \<times> row list" where
  "loop_zero pay n y bal sched =
     (if y \<le> n then
        (let principal_y = (if y = n then bal else pay);
             interest_y = Fin 0;
             bal' = Math_max (Fin 0) (bal - principal_y)
         in loop_zero pay n (y + 1) bal'
              (sched @ [\<lparr>year = y, row.payment = pay, row.interest = interest_y,
                         row.principal = principal_y, endingBalance = bal'\<rparr>]))
      else (bal, sched))"
  by pat_completeness auto
termination
  by (relation "measure (\<lambda>(pay, n, y, bal, sched). nat (n + 1 - y))") auto

function loop_rate ::
  "jsnum \<Rightarrow> real \<Rightarrow> int \<Rightarrow> int \<Rightarrow> jsnum \<Rightarrow> jsnum \<Rightarrow> jsnum \<Rightarrow> row list
     \<Rightarrow> jsnum \<times> jsnum \<times> jsnum \<times> row list" where
  "loop_rate pay r n y bal totalInterest totalPrincipal sched =
     (if y \<le> n then
        (let interest_y = bal * Fin r;
             principal_y = (if y = n then bal else pay - interest_y);
             bal' = Math_max (Fin 0) (bal - principal_y)
         in loop_rate pay r n (y + 1) bal'
              (totalInterest + interest_y) (totalPrincipal + principal_y)
              (sched @ [\<lparr>year = y, row.payment = pay, row.interest = interest_y,
                         row.principal = principal_y, endingBalance = bal'\<rparr>]))
      else (bal, totalInterest, totalPrincipal, sched))"
  by pat_completeness auto
termination
  by (relation "measure (\<lambda>(pay, r, n, y, bal, ti, tp, sched). nat (n + 1 - y))") auto

declare loop_zero.simps [simp del] loop_rate.simps [simp del]

definition computeMortgage :: "input \<Rightarrow> result" where
  "computeMortgage inp =
     (let P = loanAmount inp;
          r = annualRate inp / 100;
          n = Math_round (years inp)
      in if r = 0 then
           (let pay = Fin P / Fin (of_int n);
                (bal, sched) = loop_zero pay n 1 (Fin P) []
            in \<lparr>result.payment = pay, schedule = sched,
                totals = \<lparr>totals.payment = pay * Fin (of_int n),
                           totals.interest = Fin 0,
                           totals.principal = Fin P\<rparr>\<rparr>)
         else
           (let pay = Fin P * (Fin r * Math_pow (1 + r) n) / (Math_pow (1 + r) n - Fin 1);
                (bal, totalInterest, totalPrincipal, sched) =
                   loop_rate pay r n 1 (Fin P) (Fin 0) (Fin 0) []
            in \<lparr>result.payment = pay, schedule = sched,
                totals = \<lparr>totals.payment = pay * Fin (of_int n),
                           totals.interest = totalInterest,
                           totals.principal = totalPrincipal\<rparr>\<rparr>))"

section \<open>Describing the schedule\<close>

text \<open>
  The balance before the row of index \<open>i\<close> (year \<open>i + 1\<close>): the loan amount before the first
  row, the ending balance of the row before otherwise. It is the value of \<^verbatim>\<open>bal\<close> at the
  head of the loop.
\<close>

definition balance_before :: "real \<Rightarrow> row list \<Rightarrow> nat \<Rightarrow> jsnum" where
  "balance_before P sched i = (if i = 0 then Fin P else endingBalance (sched ! (i - 1)))"

text \<open>
  What one turn of the positive-rate loop leaves in the row of index \<open>i\<close>.
\<close>

definition rate_row :: "jsnum \<Rightarrow> real \<Rightarrow> int \<Rightarrow> real \<Rightarrow> row list \<Rightarrow> nat \<Rightarrow> bool" where
  "rate_row pay r n P sched i \<longleftrightarrow>
     year (sched ! i) = int i + 1 \<and>
     row.payment (sched ! i) = pay \<and>
     row.interest (sched ! i) = balance_before P sched i * Fin r \<and>
     row.principal (sched ! i) =
       (if int i + 1 = n then balance_before P sched i
        else pay - balance_before P sched i * Fin r) \<and>
     endingBalance (sched ! i) =
       Math_max (Fin 0) (balance_before P sched i - row.principal (sched ! i))"

text \<open>
  What one turn of the zero-rate loop leaves in the row of index \<open>i\<close>.
\<close>

definition zero_row :: "jsnum \<Rightarrow> int \<Rightarrow> real \<Rightarrow> row list \<Rightarrow> nat \<Rightarrow> bool" where
  "zero_row pay n P sched i \<longleftrightarrow>
     year (sched ! i) = int i + 1 \<and>
     row.payment (sched ! i) = pay \<and>
     row.interest (sched ! i) = Fin 0 \<and>
     row.principal (sched ! i) =
       (if int i + 1 = n then balance_before P sched i else pay) \<and>
     endingBalance (sched ! i) =
       Math_max (Fin 0) (balance_before P sched i - row.principal (sched ! i))"

text \<open>
  The closed-form annuity payment, as the specification writes it.
\<close>

definition annuity :: "real \<Rightarrow> real \<Rightarrow> nat \<Rightarrow> real" where
  "annuity P r n = P * r * (1 + r) ^ n / ((1 + r) ^ n - 1)"

text \<open>
  The balance after \<open>k\<close> of \<open>n\<close> years at rate \<open>r > 0\<close>, in closed form.
\<close>

definition rate_balance :: "real \<Rightarrow> real \<Rightarrow> nat \<Rightarrow> nat \<Rightarrow> real" where
  "rate_balance P r n k = P * ((1 + r) ^ n - (1 + r) ^ k) / ((1 + r) ^ n - 1)"

text \<open>
  The balance after \<open>k\<close> of \<open>n\<close> years at rate 0, in closed form.
\<close>

definition zero_balance :: "real \<Rightarrow> nat \<Rightarrow> nat \<Rightarrow> real" where
  "zero_balance P n k = P - real k * (P / real n)"

text \<open>
  What one turn of the positive-rate loop leaves in the row of index \<open>i\<close> when every
  arithmetic result is rounded by \<open>rd\<close>, and what one turn of the zero-rate loop leaves.
\<close>

definition rate_row_rounded ::
  "(real \<Rightarrow> jsnum) \<Rightarrow> jsnum \<Rightarrow> jsnum \<Rightarrow> int \<Rightarrow> real \<Rightarrow> row list \<Rightarrow> nat \<Rightarrow> bool" where
  "rate_row_rounded rd pay r n P sched i \<longleftrightarrow>
     year (sched ! i) = int i + 1 \<and>
     row.payment (sched ! i) = pay \<and>
     row.interest (sched ! i) = rounded rd (balance_before P sched i * r) \<and>
     row.principal (sched ! i) =
       (if int i + 1 = n then balance_before P sched i
        else rounded rd (pay - row.interest (sched ! i))) \<and>
     endingBalance (sched ! i) =
       Math_max (Fin 0) (rounded rd (balance_before P sched i - row.principal (sched ! i)))"

definition zero_row_rounded ::
  "(real \<Rightarrow> jsnum) \<Rightarrow> jsnum \<Rightarrow> int \<Rightarrow> real \<Rightarrow> row list \<Rightarrow> nat \<Rightarrow> bool" where
  "zero_row_rounded rd pay n P sched i \<longleftrightarrow>
     year (sched ! i) = int i + 1 \<and>
     row.payment (sched ! i) = pay \<and>
     row.interest (sched ! i) = Fin 0 \<and>
     row.principal (sched ! i) =
       (if int i + 1 = n then balance_before P sched i else pay) \<and>
     endingBalance (sched ! i) =
       Math_max (Fin 0) (rounded rd (balance_before P sched i - row.principal (sched ! i)))"

text \<open>
  The value of \<^verbatim>\<open>totalInterest\<close> or \<^verbatim>\<open>totalPrincipal\<close> after the numbers \<open>xs\<close> have been
  added to it one by one, from 0.
\<close>

definition running_sum :: "(real \<Rightarrow> jsnum) \<Rightarrow> jsnum list \<Rightarrow> jsnum" where
  "running_sum rd xs = foldl (\<lambda>a x. rounded rd (a + x)) (Fin 0) xs"

section \<open>Vocabulary of the claims\<close>

text \<open>
  Two numbers agree within the relative tolerance \<^verbatim>\<open>1e-6\<close> of the specification; a non-finite
  number is within tolerance of nothing.
\<close>

fun within_tolerance :: "jsnum \<Rightarrow> jsnum \<Rightarrow> bool" where
  "within_tolerance (Fin a) (Fin b) = (\<bar>a - b\<bar> \<le> \<bar>b\<bar> / 10 ^ 6)"
| "within_tolerance _ _ = False"

text \<open>
  The error kinds the specification names. The source has no \<^verbatim>\<open>throw\<close> statement and
  no operation of \<^verbatim>\<open>computeMortgage\<close> on numbers throws, so a call, seen as
  returning either an error or a result, always takes the right-hand side.
\<close>

datatype DomainError = InvalidInput | NumericOverflow

definition computeMortgage_call :: "input \<Rightarrow> DomainError + result" where
  "computeMortgage_call inp = Inr (computeMortgage inp)"

section \<open>The loops, row by row\<close>

lemma balance_before_append:
  "i \<le> length sched \<Longrightarrow> balance_before P (sched @ [x]) i = balance_before P sched i"
  by (auto simp: balance_before_def nth_append)

lemma balance_before_snoc:
  "balance_before P (sched @ [x]) (Suc (length sched)) = endingBalance x"
  by (simp add: balance_before_def)

lemma rate_row_append:
  "i < length sched \<Longrightarrow> rate_row pay r n P (sched @ [x]) i = rate_row pay r n P sched i"
  by (simp add: rate_row_def balance_before_append nth_append)

lemma loop_rate_rows:
  "1 \<le> y \<Longrightarrow> y \<le> n + 1 \<Longrightarrow> length sched = nat (y - 1) \<Longrightarrow>
   bal = balance_before P sched (length sched) \<Longrightarrow>
   (\<forall>i<length sched. rate_row pay r n P sched i) \<Longrightarrow>
   ti = foldl (+) (Fin 0) (map row.interest sched) \<Longrightarrow>
   tp = foldl (+) (Fin 0) (map row.principal sched) \<Longrightarrow>
   loop_rate pay r n y bal ti tp sched = (bal', ti', tp', sched') \<Longrightarrow>
   length sched' = nat n \<and> (\<forall>i<nat n. rate_row pay r n P sched' i) \<and>
   ti' = foldl (+) (Fin 0) (map row.interest sched') \<and>
   tp' = foldl (+) (Fin 0) (map row.principal sched')"
proof (induction pay r n y bal ti tp sched rule: loop_rate.induct)
  case (1 pay r n y bal ti tp sched)
  show ?case
  proof (cases "y \<le> n")
    case False
    with "1.prems" have yn: "y = n + 1" by simp
    from False have "loop_rate pay r n y bal ti tp sched = (bal, ti, tp, sched)"
      by (simp add: loop_rate.simps [of pay r n y])
    with "1.prems" yn show ?thesis by simp
  next
    case True
    define iy where "iy = bal * Fin r"
    define py where "py = (if y = n then bal else pay - iy)"
    define b2 where "b2 = Math_max (Fin 0) (bal - py)"
    let ?x = "\<lparr>year = y, row.payment = pay, row.interest = iy,
                row.principal = py, endingBalance = b2\<rparr>"
    have "loop_rate pay r n y bal ti tp sched
            = loop_rate pay r n (y + 1) b2 (ti + iy) (tp + py) (sched @ [?x])"
      unfolding iy_def py_def b2_def using True
      by (subst loop_rate.simps) (simp add: Let_def)
    with "1.prems"(8)
    have run: "loop_rate pay r n (y + 1) b2 (ti + iy) (tp + py) (sched @ [?x])
                 = (bal', ti', tp', sched')"
      by simp
    have len: "length (sched @ [?x]) = nat (y + 1 - 1)"
      using "1.prems"(1,3) by simp
    have yi: "int (length sched) + 1 = y"
      using "1.prems"(1,3) by simp
    have new: "rate_row pay r n P (sched @ [?x]) (length sched)"
      using "1.prems"(4) yi
      by (simp add: rate_row_def balance_before_append  iy_def py_def b2_def)
    have rows: "\<forall>i<length (sched @ [?x]). rate_row pay r n P (sched @ [?x]) i"
      using "1.prems"(5) new by (auto simp: less_Suc_eq rate_row_append)
    have bal2: "b2 = balance_before P (sched @ [?x]) (length (sched @ [?x]))"
      by (simp add: balance_before_snoc)
    show ?thesis
    proof (rule "1.IH" [OF True iy_def py_def b2_def])
      show "1 \<le> y + 1" "y + 1 \<le> n + 1"
        using "1.prems"(1) True by simp_all
      show "ti + iy = foldl (+) (Fin 0) (map row.interest (sched @ [?x]))"
        "tp + py = foldl (+) (Fin 0) (map row.principal (sched @ [?x]))"
        using "1.prems"(6,7) by simp_all
    qed (use len bal2 rows run in blast)+
  qed
qed

lemma zero_row_append:
  "i < length sched \<Longrightarrow> zero_row pay n P (sched @ [x]) i = zero_row pay n P sched i"
  by (simp add: zero_row_def balance_before_append nth_append)

lemma loop_zero_rows:
  "1 \<le> y \<Longrightarrow> y \<le> n + 1 \<Longrightarrow> length sched = nat (y - 1) \<Longrightarrow>
   bal = balance_before P sched (length sched) \<Longrightarrow>
   (\<forall>i<length sched. zero_row pay n P sched i) \<Longrightarrow>
   loop_zero pay n y bal sched = (bal', sched') \<Longrightarrow>
   length sched' = nat n \<and> (\<forall>i<nat n. zero_row pay n P sched' i)"
proof (induction pay n y bal sched rule: loop_zero.induct)
  case (1 pay n y bal sched)
  show ?case
  proof (cases "y \<le> n")
    case False
    with "1.prems" have yn: "y = n + 1" by simp
    from False have "loop_zero pay n y bal sched = (bal, sched)"
      by (simp add: loop_zero.simps [of pay n y])
    with "1.prems" yn show ?thesis by simp
  next
    case True
    define py where "py = (if y = n then bal else pay)"
    define iy where "iy = Fin 0"
    define b2 where "b2 = Math_max (Fin 0) (bal - py)"
    let ?x = "\<lparr>year = y, row.payment = pay, row.interest = iy,
                row.principal = py, endingBalance = b2\<rparr>"
    have "loop_zero pay n y bal sched = loop_zero pay n (y + 1) b2 (sched @ [?x])"
      unfolding iy_def py_def b2_def using True
      by (subst loop_zero.simps) (simp add: Let_def)
    with "1.prems"(6)
    have run: "loop_zero pay n (y + 1) b2 (sched @ [?x]) = (bal', sched')"
      by simp
    have len: "length (sched @ [?x]) = nat (y + 1 - 1)"
      using "1.prems"(1,3) by simp
    have yi: "int (length sched) + 1 = y"
      using "1.prems"(1,3) by simp
    have new: "zero_row pay n P (sched @ [?x]) (length sched)"
      using "1.prems"(4) yi
      by (simp add: zero_row_def balance_before_append iy_def py_def b2_def)
    have rows: "\<forall>i<length (sched @ [?x]). zero_row pay n P (sched @ [?x]) i"
      using "1.prems"(5) new by (auto simp: less_Suc_eq zero_row_append)
    have bal2: "b2 = balance_before P (sched @ [?x]) (length (sched @ [?x]))"
      by (simp add: balance_before_snoc)
    show ?thesis
    proof (rule "1.IH" [OF True py_def iy_def b2_def])
      show "1 \<le> y + 1" "y + 1 \<le> n + 1"
        using "1.prems"(1) True by simp_all
    qed (use len bal2 rows run in blast)+
  qed
qed

text \<open>The schedule and the totals of the two branches, for a term of at least 0 years.\<close>

lemma computeMortgage_zero:
  assumes "annualRate inp = 0" and "0 \<le> Math_round (years inp)"
  defines "res \<equiv> computeMortgage inp" and "n \<equiv> Math_round (years inp)"
    and "P \<equiv> loanAmount inp"
  shows "result.payment res = Fin P / Fin (of_int n)"
    and "length (schedule res) = nat n"
    and "\<forall>i<nat n. zero_row (result.payment res) n P (schedule res) i"
    and "totals res = \<lparr>totals.payment = result.payment res * Fin (of_int n),
                        totals.interest = Fin 0, totals.principal = Fin P\<rparr>"
proof -
  obtain bal' sched' where
    run: "loop_zero (Fin P / Fin (of_int n)) n 1 (Fin P) [] = (bal', sched')"
    by (cases "loop_zero (Fin P / Fin (of_int n)) n 1 (Fin P) []")
  have res: "res = \<lparr>result.payment = Fin P / Fin (of_int n), schedule = sched',
                     totals = \<lparr>totals.payment = Fin P / Fin (of_int n) * Fin (of_int n),
                                totals.interest = Fin 0, totals.principal = Fin P\<rparr>\<rparr>"
    using assms(1) run by (simp add: res_def computeMortgage_def n_def P_def Let_def)
  have "length sched' = nat n \<and> (\<forall>i<nat n. zero_row (Fin P / Fin (of_int n)) n P sched' i)"
    using assms(2) run
    by (intro loop_zero_rows [where y = 1 and sched = "[]" and bal = "Fin P"])
       (simp_all add: n_def balance_before_def)
  with res show "result.payment res = Fin P / Fin (of_int n)"
    and "length (schedule res) = nat n"
    and "\<forall>i<nat n. zero_row (result.payment res) n P (schedule res) i"
    and "totals res = \<lparr>totals.payment = result.payment res * Fin (of_int n),
                        totals.interest = Fin 0, totals.principal = Fin P\<rparr>"
    by simp_all
qed

lemma computeMortgage_rate:
  assumes "annualRate inp \<noteq> 0" and "0 \<le> Math_round (years inp)"
  defines "res \<equiv> computeMortgage inp" and "n \<equiv> Math_round (years inp)"
    and "P \<equiv> loanAmount inp" and "r \<equiv> annualRate inp / 100"
  shows "result.payment res =
           Fin P * (Fin r * Math_pow (1 + r) n) / (Math_pow (1 + r) n - Fin 1)"
    and "length (schedule res) = nat n"
    and "\<forall>i<nat n. rate_row (result.payment res) r n P (schedule res) i"
    and "totals res =
           \<lparr>totals.payment = result.payment res * Fin (of_int n),
            totals.interest = foldl (+) (Fin 0) (map row.interest (schedule res)),
            totals.principal = foldl (+) (Fin 0) (map row.principal (schedule res))\<rparr>"
proof -
  define pay where
    "pay = Fin P * (Fin r * Math_pow (1 + r) n) / (Math_pow (1 + r) n - Fin 1)"
  obtain bal' ti' tp' sched' where
    run: "loop_rate pay r n 1 (Fin P) (Fin 0) (Fin 0) [] = (bal', ti', tp', sched')"
    by (cases "loop_rate pay r n 1 (Fin P) (Fin 0) (Fin 0) []")
  have res: "res = \<lparr>result.payment = pay, schedule = sched',
                     totals = \<lparr>totals.payment = pay * Fin (of_int n),
                                totals.interest = ti', totals.principal = tp'\<rparr>\<rparr>"
    using assms(1) run
    by (simp add: res_def computeMortgage_def n_def P_def r_def pay_def Let_def)
  have "length sched' = nat n \<and> (\<forall>i<nat n. rate_row pay r n P sched' i) \<and>
        ti' = foldl (+) (Fin 0) (map row.interest sched') \<and>
        tp' = foldl (+) (Fin 0) (map row.principal sched')"
    using assms(2) run
    by (intro loop_rate_rows [where y = 1 and sched = "[]" and bal = "Fin P"
          and ti = "Fin 0" and tp = "Fin 0"])
       (simp_all add: n_def balance_before_def)
  with res show "result.payment res =
           Fin P * (Fin r * Math_pow (1 + r) n) / (Math_pow (1 + r) n - Fin 1)"
    and "length (schedule res) = nat n"
    and "\<forall>i<nat n. rate_row (result.payment res) r n P (schedule res) i"
    and "totals res =
           \<lparr>totals.payment = result.payment res * Fin (of_int n),
            totals.interest = foldl (+) (Fin 0) (map row.interest (schedule res)),
            totals.principal = foldl (+) (Fin 0) (map row.principal (schedule res))\<rparr>"
    by (simp_all add: pay_def)
qed

lemma computeMortgage_no_rows:
  assumes "Math_round (years inp) < 1"
  shows "schedule (computeMortgage inp) = []"
  using assms
  by (simp add: computeMortgage_def Let_def loop_zero.simps [of _ _ 1]
      loop_rate.simps [of _ _ _ 1])

section \<open>Closed forms for valid inputs\<close>

lemma jsnum_minus_Fin [simp]: "Fin a - Fin b = Fin (a - b)"
  by (simp add: minus_jsnum_def)

lemma growth_gt_1: "0 < r \<Longrightarrow> 0 < n \<Longrightarrow> 1 < (1 + r :: real) ^ n"
  by (simp add: one_less_power)

lemma growth_neq_1:
  assumes "0 < r" and "0 < n"
  shows "(1 + r :: real) ^ n \<noteq> 1"
proof -
  have "1 < (1 + r) ^ n" by (rule growth_gt_1 [OF assms])
  then show ?thesis by simp
qed

lemma payment_closed:
  assumes "0 < r" and "1 \<le> n"
  shows "Fin P * (Fin r * Math_pow (1 + r) n) / (Math_pow (1 + r) n - Fin 1)
           = Fin (annuity P r (nat n))"
proof -
  have "(1 + r) ^ nat n \<noteq> 1" using assms by (simp add: growth_neq_1)
  then show ?thesis using assms by (simp add: Math_pow_def annuity_def)
qed

lemma rate_balance_0: "0 < r \<Longrightarrow> 0 < n \<Longrightarrow> rate_balance P r n 0 = P"
  using growth_neq_1 [of r n] by (simp add: rate_balance_def)

lemma rate_balance_n: "rate_balance P r n n = 0"
  by (simp add: rate_balance_def)

lemma rate_balance_Suc:
  assumes "0 < r" and "0 < n"
  shows "rate_balance P r n (Suc k) = rate_balance P r n k * (1 + r) - annuity P r n"
proof -
  define X where "X = (1 + r) ^ n"
  define Y where "Y = (1 + r) ^ k"
  have "P * (X - Y * (1 + r)) = P * (X - Y) * (1 + r) - P * r * X"
    by (simp add: algebra_simps)
  then have "P * (X - Y * (1 + r)) / (X - 1) = (P * (X - Y) * (1 + r) - P * r * X) / (X - 1)"
    by simp
  also have "\<dots> = P * (X - Y) / (X - 1) * (1 + r) - P * r * X / (X - 1)"
    by (simp add: diff_divide_distrib)
  finally show ?thesis
    by (simp add: rate_balance_def annuity_def X_def Y_def mult.commute)
qed

lemma rate_balance_nonneg:
  assumes "0 < r" and "0 < P" and "k \<le> n" and "0 < n"
  shows "0 \<le> rate_balance P r n k"
proof -
  have "(1 + r) ^ k \<le> (1 + r) ^ n" using assms by (simp add: power_increasing)
  moreover have "0 < (1 + r) ^ n - 1" using growth_gt_1 [of r n] assms by simp
  ultimately show ?thesis using assms by (simp add: rate_balance_def)
qed

lemma rate_balance_decreasing:
  assumes "0 < r" and "0 < P" and "0 < n"
  shows "rate_balance P r n (Suc k) \<le> rate_balance P r n k"
proof -
  have d: "0 < (1 + r) ^ n - 1" using growth_gt_1 [of r n] assms by simp
  have "(1 + r) ^ k \<le> (1 + r) ^ Suc k" using assms by simp
  then have "P * ((1 + r) ^ n - (1 + r) ^ Suc k) \<le> P * ((1 + r) ^ n - (1 + r) ^ k)"
    using assms(2) by (simp del: power_Suc)
  then show ?thesis
    unfolding rate_balance_def using d by (simp only: divide_right_mono less_imp_le)
qed

lemma rate_balance_before:
  assumes "0 < r" and "0 < P" and "1 \<le> n"
    and rows: "\<forall>i<nat n. rate_row (Fin (annuity P r (nat n))) r n P sched i"
  shows "k \<le> nat n \<Longrightarrow> balance_before P sched k = Fin (rate_balance P r (nat n) k)"
proof (induction k)
  case 0
  show ?case using assms(1,3) by (simp add: balance_before_def rate_balance_0)
next
  case (Suc k)
  let ?B = "rate_balance P r (nat n)"
  have pos: "0 < nat n" using assms(3) by simp
  from Suc have bb: "balance_before P sched k = Fin (?B k)" and k: "k < nat n"
    by simp_all
  from rows k have row: "rate_row (Fin (annuity P r (nat n))) r n P sched k"
    by simp
  have "balance_before P sched (Suc k) = endingBalance (sched ! k)"
    by (simp add: balance_before_def)
  also have "\<dots> = Fin (?B (Suc k))"
  proof (cases "int k + 1 = n")
    case True
    then have "Suc k = nat n" by simp
    with row True bb show ?thesis
      by (simp add: rate_row_def rate_balance_n)
  next
    case False
    have "0 \<le> ?B (Suc k)"
      using Suc.prems assms(1,2) pos by (intro rate_balance_nonneg) simp_all
    moreover have "?B (Suc k) = ?B k * (1 + r) - annuity P r (nat n)"
      by (rule rate_balance_Suc [OF assms(1) pos])
    ultimately have "max 0 (?B k - (annuity P r (nat n) - ?B k * r)) = ?B (Suc k)"
      by (simp add: algebra_simps)
    with row False bb show ?thesis
      by (simp add: rate_row_def)
  qed
  finally show ?case .
qed

lemma rate_row_closed:
  assumes "0 < r" and "0 < P" and "1 \<le> n"
    and rows: "\<forall>i<nat n. rate_row (Fin (annuity P r (nat n))) r n P sched i"
    and i: "i < nat n"
  shows "sched ! i =
           \<lparr>year = int i + 1, row.payment = Fin (annuity P r (nat n)),
            row.interest = Fin (rate_balance P r (nat n) i * r),
            row.principal = Fin (rate_balance P r (nat n) i - rate_balance P r (nat n) (Suc i)),
            endingBalance = Fin (rate_balance P r (nat n) (Suc i))\<rparr>"
proof -
  let ?B = "rate_balance P r (nat n)"
  have pos: "0 < nat n" using assms(3) by simp
  have bb: "balance_before P sched i = Fin (?B i)"
    using i by (intro rate_balance_before [OF assms(1-4)]) simp
  have bb': "endingBalance (sched ! i) = Fin (?B (Suc i))"
    using rate_balance_before [OF assms(1-4), of "Suc i"] i
    by (simp add: balance_before_def)
  from rows i have row: "rate_row (Fin (annuity P r (nat n))) r n P sched i"
    by simp
  have step: "?B (Suc i) = ?B i * (1 + r) - annuity P r (nat n)"
    by (rule rate_balance_Suc [OF assms(1) pos])
  have prin: "row.principal (sched ! i) = Fin (?B i - ?B (Suc i))"
  proof (cases "int i + 1 = n")
    case True
    then have "Suc i = nat n" by simp
    with row True bb show ?thesis
      by (simp add: rate_row_def rate_balance_n)
  next
    case False
    with row bb step show ?thesis
      by (simp add: rate_row_def algebra_simps)
  qed
  from row bb have "year (sched ! i) = int i + 1"
    and "row.payment (sched ! i) = Fin (annuity P r (nat n))"
    and "row.interest (sched ! i) = Fin (?B i * r)"
    by (simp_all add: rate_row_def)
  with prin bb' show ?thesis
    by (cases "sched ! i") simp
qed

lemma foldl_plus_Fin:
  "(\<forall>i<length xs. f (xs ! i) = Fin (g i)) \<Longrightarrow>
   foldl (+) (Fin 0) (map f xs) = Fin (\<Sum>i<length xs. g i)"
proof (induction xs rule: rev_induct)
  case Nil
  show ?case by simp
next
  case (snoc x xs)
  have "\<forall>i<length xs. f (xs ! i) = Fin (g i)"
  proof (intro allI impI)
    fix i assume "i < length xs"
    with snoc.prems [rule_format, of i] show "f (xs ! i) = Fin (g i)"
      by (simp add: nth_append)
  qed
  moreover have "f x = Fin (g (length xs))"
    using snoc.prems [rule_format, of "length xs"] by simp
  ultimately show ?case using snoc.IH by simp
qed

lemma zero_balance_0: "zero_balance P n 0 = P"
  by (simp add: zero_balance_def)

lemma zero_balance_n: "0 < n \<Longrightarrow> zero_balance P n n = 0"
  by (simp add: zero_balance_def)

lemma zero_balance_Suc: "zero_balance P n (Suc k) = zero_balance P n k - P / real n"
  by (simp add: zero_balance_def add_divide_distrib distrib_right)

lemma zero_balance_nonneg:
  assumes "0 < P" and "k \<le> n" and "0 < n"
  shows "0 \<le> zero_balance P n k"
proof -
  have "real k * (P / real n) = P * (real k / real n)" by simp
  also have "\<dots> \<le> P * 1"
    using assms by (intro mult_left_mono) simp_all
  finally show ?thesis by (simp add: zero_balance_def)
qed

lemma zero_balance_before:
  assumes "0 < P" and "1 \<le> n"
    and rows: "\<forall>i<nat n. zero_row (Fin (P / real (nat n))) n P sched i"
  shows "k \<le> nat n \<Longrightarrow> balance_before P sched k = Fin (zero_balance P (nat n) k)"
proof (induction k)
  case 0
  show ?case by (simp add: balance_before_def zero_balance_0)
next
  case (Suc k)
  let ?B = "zero_balance P (nat n)"
  have pos: "0 < nat n" using assms(2) by simp
  from Suc have bb: "balance_before P sched k = Fin (?B k)" and k: "k < nat n"
    by simp_all
  from rows k have row: "zero_row (Fin (P / real (nat n))) n P sched k"
    by simp
  have "balance_before P sched (Suc k) = endingBalance (sched ! k)"
    by (simp add: balance_before_def)
  also have "\<dots> = Fin (?B (Suc k))"
  proof (cases "int k + 1 = n")
    case True
    then have "Suc k = nat n" by simp
    with row True bb pos show ?thesis
      by (simp add: zero_row_def zero_balance_n)
  next
    case False
    have "0 \<le> ?B (Suc k)"
      using Suc.prems assms(1) pos by (intro zero_balance_nonneg) simp_all
    then have "max 0 (?B k - P / real (nat n)) = ?B (Suc k)"
      by (simp add: zero_balance_Suc)
    with row False bb show ?thesis
      by (simp add: zero_row_def)
  qed
  finally show ?case .
qed

lemma zero_row_closed:
  assumes "0 < P" and "1 \<le> n"
    and rows: "\<forall>i<nat n. zero_row (Fin (P / real (nat n))) n P sched i"
    and i: "i < nat n"
  shows "sched ! i =
           \<lparr>year = int i + 1, row.payment = Fin (P / real (nat n)),
            row.interest = Fin 0,
            row.principal = Fin (P / real (nat n)),
            endingBalance = Fin (zero_balance P (nat n) (Suc i))\<rparr>"
proof -
  let ?B = "zero_balance P (nat n)"
  have pos: "0 < nat n" using assms(2) by simp
  have bb: "balance_before P sched i = Fin (?B i)"
    using i by (intro zero_balance_before [OF assms(1-3)]) simp
  have bb': "endingBalance (sched ! i) = Fin (?B (Suc i))"
    using zero_balance_before [OF assms(1-3), of "Suc i"] i
    by (simp add: balance_before_def)
  from rows i have row: "zero_row (Fin (P / real (nat n))) n P sched i"
    by simp
  have prin: "row.principal (sched ! i) = Fin (P / real (nat n))"
  proof (cases "int i + 1 = n")
    case True
    then have "Suc i = nat n" by simp
    then have "?B i = P / real (nat n)"
      using zero_balance_Suc [of P "nat n" i] pos by (simp add: zero_balance_n)
    with row True bb show ?thesis
      by (simp add: zero_row_def)
  next
    case False
    with row show ?thesis
      by (simp add: zero_row_def)
  qed
  from row have "year (sched ! i) = int i + 1"
    and "row.payment (sched ! i) = Fin (P / real (nat n))"
    and "row.interest (sched ! i) = Fin 0"
    by (simp_all add: zero_row_def)
  with prin bb' show ?thesis
    by (cases "sched ! i") simp
qed

section \<open>Facts shared by the claims\<close>

lemma schedule_length:
  "length (schedule (computeMortgage inp)) = nat (Math_round (years inp))"
proof (cases "Math_round (years inp) < 1")
  case True
  then show ?thesis by (simp add: computeMortgage_no_rows)
next
  case False
  then have n: "0 \<le> Math_round (years inp)" by simp
  show ?thesis
  proof (cases "annualRate inp = 0")
    case True
    then show ?thesis by (rule computeMortgage_zero(2) [OF _ n])
  next
    case False
    then show ?thesis by (rule computeMortgage_rate(2) [OF _ n])
  qed
qed





lemma rate_balance_finite:
  assumes rows: "\<forall>i<N. rate_row (Fin p) r n P sched i"
  shows "k \<le> N \<Longrightarrow> \<exists>b. balance_before P sched k = Fin b"
proof (induction k)
  case 0
  show ?case by (simp add: balance_before_def)
next
  case (Suc k)
  then obtain b where bb: "balance_before P sched k = Fin b" by auto
  from rows Suc.prems have "rate_row (Fin p) r n P sched k" by simp
  with bb have "\<exists>c. endingBalance (sched ! k) = Fin c"
    by (cases "int k + 1 = n") (simp_all add: rate_row_def)
  then show ?case by (simp add: balance_before_def)
qed

lemma valid_rate:
  assumes "0 < loanAmount inp" and "0 < annualRate inp" and "1 \<le> Math_round (years inp)"
  defines "N \<equiv> nat (Math_round (years inp))"
    and "P \<equiv> loanAmount inp" and "r \<equiv> annualRate inp / 100"
  shows "result.payment (computeMortgage inp) = Fin (annuity P r N)"
    and "length (schedule (computeMortgage inp)) = N"
    and "\<forall>i<N. schedule (computeMortgage inp) ! i =
           \<lparr>year = int i + 1, row.payment = Fin (annuity P r N),
            row.interest = Fin (rate_balance P r N i * r),
            row.principal = Fin (rate_balance P r N i - rate_balance P r N (Suc i)),
            endingBalance = Fin (rate_balance P r N (Suc i))\<rparr>"
    and "\<forall>k\<le>N. balance_before P (schedule (computeMortgage inp)) k = Fin (rate_balance P r N k)"
    and "totals (computeMortgage inp) =
           \<lparr>totals.payment = Fin (annuity P r N * real N),
            totals.interest = Fin (annuity P r N * real N - P),
            totals.principal = Fin P\<rparr>"
proof -
  let ?res = "computeMortgage inp" and ?n = "Math_round (years inp)"
  have r: "annualRate inp \<noteq> 0" and n: "0 \<le> ?n" and r0: "0 < r" and N: "0 < N"
    using assms(1-3) by (simp_all add: r_def N_def)
  show pay: "result.payment ?res = Fin (annuity P r N)"
    using computeMortgage_rate(1) [OF r n] r0 assms(3)
    by (simp add: payment_closed r_def P_def N_def)
  show len: "length (schedule ?res) = N"
    using computeMortgage_rate(2) [OF r n] by (simp add: N_def)
  have rows: "\<forall>i<nat ?n. rate_row (Fin (annuity P r (nat ?n))) r ?n P (schedule ?res) i"
    using computeMortgage_rate(3) [OF r n] pay by (simp add: r_def P_def N_def)
  have P0: "0 < P" using assms(1) by (simp add: P_def)
  show closed: "\<forall>i<N. schedule ?res ! i =
           \<lparr>year = int i + 1, row.payment = Fin (annuity P r N),
            row.interest = Fin (rate_balance P r N i * r),
            row.principal = Fin (rate_balance P r N i - rate_balance P r N (Suc i)),
            endingBalance = Fin (rate_balance P r N (Suc i))\<rparr>"
    using rate_row_closed [OF r0 P0 assms(3) rows] by (simp add: N_def)
  show "\<forall>k\<le>N. balance_before P (schedule ?res) k = Fin (rate_balance P r N k)"
    using rate_balance_before [OF r0 P0 assms(3) rows] by (simp add: N_def)
  have "\<forall>i<length (schedule ?res). row.principal (schedule ?res ! i)
          = Fin (rate_balance P r N i - rate_balance P r N (Suc i))"
    using closed len by simp
  then have "foldl (+) (Fin 0) (map row.principal (schedule ?res))
               = Fin (\<Sum>i<N. rate_balance P r N i - rate_balance P r N (Suc i))"
    using foldl_plus_Fin [of "schedule ?res" row.principal] len by simp
  also have tele: "(\<Sum>i<N. rate_balance P r N i - rate_balance P r N (Suc i)) = P"
    using r0 N by (simp add: sum_lessThan_telescope' rate_balance_0 rate_balance_n)
  finally have tp: "foldl (+) (Fin 0) (map row.principal (schedule ?res)) = Fin P" .
  have "\<forall>i<length (schedule ?res). row.interest (schedule ?res ! i)
          = Fin (rate_balance P r N i * r)"
    using closed len by simp
  then have "foldl (+) (Fin 0) (map row.interest (schedule ?res))
               = Fin (\<Sum>i<N. rate_balance P r N i * r)"
    using foldl_plus_Fin [of "schedule ?res" row.interest] len by simp
  also have "(\<Sum>i<N. rate_balance P r N i * r)
               = (\<Sum>i<N. annuity P r N - (rate_balance P r N i - rate_balance P r N (Suc i)))"
    by (intro sum.cong refl) (simp add: rate_balance_Suc [OF r0 N] algebra_simps)
  also have "\<dots> = (\<Sum>i<N. annuity P r N)
                      - (\<Sum>i<N. rate_balance P r N i - rate_balance P r N (Suc i))"
    by (rule sum_subtractf)
  also have "\<dots> = annuity P r N * real N - P"
    by (simp only: tele sum_constant card_lessThan mult.commute of_nat_id)
  finally have ti: "foldl (+) (Fin 0) (map row.interest (schedule ?res))
                      = Fin (annuity P r N * real N - P)" .
  show "totals ?res =
           \<lparr>totals.payment = Fin (annuity P r N * real N),
            totals.interest = Fin (annuity P r N * real N - P),
            totals.principal = Fin P\<rparr>"
    using computeMortgage_rate(4) [OF r n] pay ti tp n by (simp add: N_def)
qed

lemma valid_zero:
  assumes "0 < loanAmount inp" and "annualRate inp = 0" and "1 \<le> Math_round (years inp)"
  defines "N \<equiv> nat (Math_round (years inp))" and "P \<equiv> loanAmount inp"
  shows "result.payment (computeMortgage inp) = Fin (P / real N)"
    and "length (schedule (computeMortgage inp)) = N"
    and "\<forall>i<N. schedule (computeMortgage inp) ! i =
           \<lparr>year = int i + 1, row.payment = Fin (P / real N),
            row.interest = Fin 0, row.principal = Fin (P / real N),
            endingBalance = Fin (zero_balance P N (Suc i))\<rparr>"
    and "\<forall>k\<le>N. balance_before P (schedule (computeMortgage inp)) k = Fin (zero_balance P N k)"
    and "totals (computeMortgage inp) =
           \<lparr>totals.payment = Fin P, totals.interest = Fin 0, totals.principal = Fin P\<rparr>"
proof -
  let ?res = "computeMortgage inp" and ?n = "Math_round (years inp)"
  have n: "0 \<le> ?n" and N: "0 < N" and Nn: "real N = real_of_int ?n"
    using assms(3) by (simp_all add: N_def)
  show pay: "result.payment ?res = Fin (P / real N)"
    using computeMortgage_zero(1) [OF assms(2) n] assms(3) by (simp add: P_def Nn)
  show len: "length (schedule ?res) = N"
    using computeMortgage_zero(2) [OF assms(2) n] by (simp add: N_def)
  have rows: "\<forall>i<nat ?n. zero_row (Fin (P / real (nat ?n))) ?n P (schedule ?res) i"
    using computeMortgage_zero(3) [OF assms(2) n] pay by (simp add: P_def N_def)
  have P0: "0 < P" using assms(1) by (simp add: P_def)
  show "\<forall>i<N. schedule ?res ! i =
           \<lparr>year = int i + 1, row.payment = Fin (P / real N),
            row.interest = Fin 0, row.principal = Fin (P / real N),
            endingBalance = Fin (zero_balance P N (Suc i))\<rparr>"
    using zero_row_closed [OF P0 assms(3) rows] by (simp add: N_def)
  show "\<forall>k\<le>N. balance_before P (schedule ?res) k = Fin (zero_balance P N k)"
    using zero_balance_before [OF P0 assms(3) rows] by (simp add: N_def)
  show "totals ?res =
           \<lparr>totals.payment = Fin P, totals.interest = Fin 0, totals.principal = Fin P\<rparr>"
    using computeMortgage_zero(4) [OF assms(2) n] pay N by (simp add: P_def Nn [symmetric])
qed

text \<open>The engine run on two concrete inputs.\<close>

lemma run_1000_10_3:
  "computeMortgage \<lparr>loanAmount = 1000, annualRate = 10, years = 3\<rparr> =
    \<lparr>result.payment = Fin (133100 / 331),
     schedule =
       [\<lparr>year = 1, row.payment = Fin (133100 / 331), row.interest = Fin 100,
         row.principal = Fin (100000 / 331), endingBalance = Fin (231000 / 331)\<rparr>,
        \<lparr>year = 2, row.payment = Fin (133100 / 331), row.interest = Fin (23100 / 331),
         row.principal = Fin (110000 / 331), endingBalance = Fin (121000 / 331)\<rparr>,
        \<lparr>year = 3, row.payment = Fin (133100 / 331), row.interest = Fin (12100 / 331),
         row.principal = Fin (121000 / 331), endingBalance = Fin 0\<rparr>],
     totals = \<lparr>totals.payment = Fin (399300 / 331), totals.interest = Fin (68300 / 331),
               totals.principal = Fin 1000\<rparr>\<rparr>"
  by (simp add: Let_def computeMortgage_def Math_round_def Math_pow_def loop_rate.simps
      eval_nat_numeral)

lemma run_100_0_0:
  "computeMortgage \<lparr>loanAmount = 100, annualRate = 0, years = 0\<rparr> =
    \<lparr>result.payment = PInf, schedule = [],
     totals = \<lparr>totals.payment = NaN, totals.interest = Fin 0, totals.principal = Fin 100\<rparr>\<rparr>"
  by (simp add: Let_def computeMortgage_def Math_round_def loop_zero.simps)

section \<open>Rounded arithmetic\<close>

lemma rounded_Fin [simp]: "rounded Fin a = a"
  by (cases a) simp_all

lemma Math_pow_rounded_Fin [simp]: "Math_pow_rounded Fin (Fin b) e = Math_pow b e"
  by (simp add: Math_pow_def)

lemma loop_zero_rounded_Fin:
  "loop_zero_rounded Fin pay n y bal sched = loop_zero pay n y bal sched"
proof (induction pay n y bal sched rule: loop_zero.induct)
  case (1 pay n y bal sched)
  show ?case
  proof (cases "y \<le> n")
    case True
    with "1.IH" [OF True refl refl refl] show ?thesis
      by (subst loop_zero_rounded.simps, subst loop_zero.simps) (simp add: Let_def)
  next
    case False
    then show ?thesis
      by (subst loop_zero_rounded.simps, subst loop_zero.simps) simp
  qed
qed

lemma loop_rate_rounded_Fin:
  "loop_rate_rounded Fin pay (Fin r) n y bal ti tp sched = loop_rate pay r n y bal ti tp sched"
proof (induction pay r n y bal ti tp sched rule: loop_rate.induct)
  case (1 pay r n y bal ti tp sched)
  show ?case
  proof (cases "y \<le> n")
    case True
    with "1.IH" [OF True refl refl refl] show ?thesis
      by (subst loop_rate_rounded.simps, subst loop_rate.simps) (auto simp: Let_def)
  next
    case False
    then show ?thesis
      by (subst loop_rate_rounded.simps, subst loop_rate.simps) simp
  qed
qed

lemma js_eq_Fin [simp]: "js_eq (Fin a) (Fin b) = (a = b)"
  by simp

lemma computeMortgage_rounded_Fin:
  "computeMortgage_rounded Fin inp = computeMortgage inp"
proof -
  have r: "Fin (annualRate inp) / Fin 100 = Fin (annualRate inp / 100)"
    by simp
  show ?thesis
    unfolding computeMortgage_rounded_def computeMortgage_def
    by (simp only: Let_def r plus_jsnum.simps(1) rounded_Fin Math_pow_rounded_Fin
        loop_zero_rounded_Fin loop_rate_rounded_Fin js_eq_Fin)
qed

lemma exponent_from_eq:
  "e0 \<le> e \<Longrightarrow> e - e0 \<le> int k \<Longrightarrow> 2 powi e \<le> x \<Longrightarrow> x < 2 powi (e + 1) \<Longrightarrow>
   exponent_from k e0 x = e"
proof (induction k arbitrary: e0)
  case 0
  then show ?case by simp
next
  case (Suc k)
  show ?case
  proof (cases "e0 = e")
    case True
    with Suc.prems show ?thesis by simp
  next
    case False
    with Suc.prems have lt: "e0 + 1 \<le> e" by simp
    then have "(2::real) powi (e0 + 1) \<le> 2 powi e"
      by (intro power_int_increasing) simp_all
    with Suc.prems have "2 powi (e0 + 1) \<le> x" by simp
    moreover have "exponent_from k (e0 + 1) x = e"
      using Suc.prems lt by (intro Suc.IH) simp_all
    ultimately show ?thesis by simp
  qed
qed

lemma exponent64_eq:
  "- 1022 \<le> e \<Longrightarrow> e \<le> 1023 \<Longrightarrow> 2 powi e \<le> \<bar>x\<bar> \<Longrightarrow> \<bar>x\<bar> < 2 powi (e + 1) \<Longrightarrow>
   exponent64 x = e"
  unfolding exponent64_def by (rule exponent_from_eq) simp_all

lemma exponent_from_0: "exponent_from k e 0 = e"
proof (cases k)
  case 0
  then show ?thesis by simp
next
  case (Suc j)
  have "0 < (2::real) powi (e + 1)" by (rule zero_less_power_int) simp
  then have "\<not> (2::real) powi (e + 1) \<le> 0" by (simp only: not_le)
  then show ?thesis using Suc by simp
qed

lemma binary64_0 [simp]: "binary64 0 = Fin 0"
  by (simp add: binary64_def exponent64_def exponent_from_0 round_even_def)

lemma round_even_near:
  assumes "\<bar>z - of_int m\<bar> < 1 / 2"
  shows "round_even z = m"
proof (cases "z - of_int \<lfloor>z\<rfloor> < 1 / 2")
  case True
  then have "\<lfloor>z\<rfloor> = m" using assms by linarith
  with True show ?thesis by (simp add: round_even_def Let_def)
next
  case False
  then have m: "\<lfloor>z\<rfloor> + 1 = m" using assms by linarith
  then have "real_of_int m = of_int \<lfloor>z\<rfloor> + 1" by linarith
  with assms have "1 / 2 < z - of_int \<lfloor>z\<rfloor>" by linarith
  with False m show ?thesis by (simp add: round_even_def Let_def)
qed

lemma round_even_tie:
  assumes "z = of_int m + 1 / 2"
  shows "round_even z = (if even m then m else m + 1)"
proof -
  from assms have "\<lfloor>z\<rfloor> = m" by linarith
  with assms show ?thesis by (simp add: round_even_def Let_def)
qed

lemma round_even_dist: "\<bar>of_int (round_even z) - z\<bar> \<le> 1 / 2"
proof -
  have "of_int \<lfloor>z\<rfloor> \<le> z" "z < of_int \<lfloor>z\<rfloor> + 1" by linarith+
  then show ?thesis
    by (auto simp: round_even_def Let_def)
qed

lemma binary64_eval:
  assumes "- 1022 \<le> e" and "e \<le> 1022"
    and "2 powi e \<le> \<bar>x\<bar>" and "\<bar>x\<bar> < 2 powi (e + 1)"
    and "round_even (x / 2 powi (e - 52)) = m"
  shows "binary64 x = Fin (of_int m * 2 powi (e - 52))"
proof -
  define u :: real where "u = 2 powi (e - 52)"
  have u: "0 < u" unfolding u_def by (rule zero_less_power_int) simp
  have e: "exponent64 x = e"
    using assms(1-4) by (intro exponent64_eq) simp_all
  have "\<bar>of_int m - x / u\<bar> \<le> 1 / 2"
    using round_even_dist [of "x / u"] assms(5) by (simp add: u_def)
  then have "\<bar>of_int m - x / u\<bar> * u \<le> 1 / 2 * u"
    using u by (intro mult_right_mono) simp_all
  moreover have "\<bar>of_int m - x / u\<bar> * u = \<bar>(of_int m - x / u) * u\<bar>"
    using u by (simp add: abs_mult)
  moreover have "(of_int m - x / u) * u = of_int m * u - x"
    using u by (simp add: left_diff_distrib)
  ultimately have near: "\<bar>of_int m * u - x\<bar> \<le> u / 2" by simp
  have "u \<le> 2 powi 1023"
    unfolding u_def using assms(2) by (intro power_int_increasing) simp_all
  moreover have "(2::real) powi (e + 1) \<le> 2 powi 1023"
    using assms(2) by (intro power_int_increasing) simp_all
  moreover have "(2::real) powi 1024 = 2 * 2 powi 1023"
    by (simp add: power_int_def)
  moreover have "0 < (2::real) powi 1023" by (rule zero_less_power_int) simp
  ultimately have "\<bar>of_int m * u\<bar> < 2 powi 1024"
    using near assms(4) by linarith
  then show ?thesis
    using assms(5) by (simp add: binary64_def e Let_def u_def)
qed

text \<open>The rows of the schedule, whatever the rounding.\<close>

lemma loop_rate_rounded_rows:
  "1 \<le> y \<Longrightarrow> length sched = nat (y - 1) \<Longrightarrow>
   (\<forall>i<length sched. row.payment (sched ! i) = pay \<and>
      (int i + 1 \<noteq> n \<longrightarrow>
         row.principal (sched ! i) = rounded rd (pay - row.interest (sched ! i)))) \<Longrightarrow>
   loop_rate_rounded rd pay r n y bal ti tp sched = (bal', ti', tp', sched') \<Longrightarrow>
   (\<forall>i<length sched'. row.payment (sched' ! i) = pay \<and>
      (int i + 1 \<noteq> n \<longrightarrow>
         row.principal (sched' ! i) = rounded rd (pay - row.interest (sched' ! i))))"
proof (induction rd pay r n y bal ti tp sched rule: loop_rate_rounded.induct)
  case (1 rd pay r n y bal ti tp sched)
  show ?case
  proof (cases "y \<le> n")
    case False
    then have "loop_rate_rounded rd pay r n y bal ti tp sched = (bal, ti, tp, sched)"
      by (simp add: loop_rate_rounded.simps [of rd pay r n y])
    with "1.prems" show ?thesis by simp
  next
    case True
    define iy where "iy = rounded rd (bal * r)"
    define py where "py = (if y = n then bal else rounded rd (pay - iy))"
    define b2 where "b2 = Math_max (Fin 0) (rounded rd (bal - py))"
    let ?x = "\<lparr>year = y, row.payment = pay, row.interest = iy,
                row.principal = py, endingBalance = b2\<rparr>"
    have "loop_rate_rounded rd pay r n y bal ti tp sched
            = loop_rate_rounded rd pay r n (y + 1) b2 (rounded rd (ti + iy))
                (rounded rd (tp + py)) (sched @ [?x])"
      unfolding iy_def py_def b2_def using True
      by (subst loop_rate_rounded.simps) (simp add: Let_def)
    with "1.prems"(4)
    have run: "loop_rate_rounded rd pay r n (y + 1) b2 (rounded rd (ti + iy))
                 (rounded rd (tp + py)) (sched @ [?x]) = (bal', ti', tp', sched')"
      by simp
    have yi: "int (length sched) + 1 = y"
      using "1.prems"(1,2) by simp
    have rows: "\<forall>i<length (sched @ [?x]). row.payment ((sched @ [?x]) ! i) = pay \<and>
      (int i + 1 \<noteq> n \<longrightarrow>
         row.principal ((sched @ [?x]) ! i)
           = rounded rd (pay - row.interest ((sched @ [?x]) ! i)))"
      using "1.prems"(3) yi by (auto simp: less_Suc_eq nth_append py_def)
    show ?thesis
    proof (rule "1.IH" [OF True iy_def py_def b2_def])
      show "1 \<le> y + 1" using "1.prems"(1) by simp
      show "length (sched @ [?x]) = nat (y + 1 - 1)" using "1.prems"(1,2) by simp
    qed (use rows run in blast)+
  qed
qed

lemma loop_zero_rounded_rows:
  "1 \<le> y \<Longrightarrow> length sched = nat (y - 1) \<Longrightarrow>
   (\<forall>i<length sched. row.payment (sched ! i) = pay \<and> row.interest (sched ! i) = Fin 0 \<and>
      (int i + 1 \<noteq> n \<longrightarrow> row.principal (sched ! i) = pay)) \<Longrightarrow>
   loop_zero_rounded rd pay n y bal sched = (bal', sched') \<Longrightarrow>
   (\<forall>i<length sched'. row.payment (sched' ! i) = pay \<and> row.interest (sched' ! i) = Fin 0 \<and>
      (int i + 1 \<noteq> n \<longrightarrow> row.principal (sched' ! i) = pay))"
proof (induction rd pay n y bal sched rule: loop_zero_rounded.induct)
  case (1 rd pay n y bal sched)
  show ?case
  proof (cases "y \<le> n")
    case False
    then have "loop_zero_rounded rd pay n y bal sched = (bal, sched)"
      by (simp add: loop_zero_rounded.simps [of rd pay n y])
    with "1.prems" show ?thesis by simp
  next
    case True
    define py where "py = (if y = n then bal else pay)"
    define iy where "iy = Fin 0"
    define b2 where "b2 = Math_max (Fin 0) (rounded rd (bal - py))"
    let ?x = "\<lparr>year = y, row.payment = pay, row.interest = iy,
                row.principal = py, endingBalance = b2\<rparr>"
    have "loop_zero_rounded rd pay n y bal sched
            = loop_zero_rounded rd pay n (y + 1) b2 (sched @ [?x])"
      unfolding iy_def py_def b2_def using True
      by (subst loop_zero_rounded.simps) (simp add: Let_def)
    with "1.prems"(4)
    have run: "loop_zero_rounded rd pay n (y + 1) b2 (sched @ [?x]) = (bal', sched')"
      by simp
    have yi: "int (length sched) + 1 = y"
      using "1.prems"(1,2) by simp
    have rows: "\<forall>i<length (sched @ [?x]). row.payment ((sched @ [?x]) ! i) = pay \<and>
      row.interest ((sched @ [?x]) ! i) = Fin 0 \<and>
      (int i + 1 \<noteq> n \<longrightarrow> row.principal ((sched @ [?x]) ! i) = pay)"
      using "1.prems"(3) yi by (auto simp: less_Suc_eq nth_append py_def iy_def)
    show ?thesis
    proof (rule "1.IH" [OF True py_def iy_def b2_def])
      show "1 \<le> y + 1" using "1.prems"(1) by simp
      show "length (sched @ [?x]) = nat (y + 1 - 1)" using "1.prems"(1,2) by simp
    qed (use rows run in blast)+
  qed
qed

lemma computeMortgage_rounded_rows:
  assumes "i < length (schedule (computeMortgage_rounded rd inp))"
    and "int i + 1 \<noteq> Math_round (years inp)"
  shows "if js_eq (rounded rd (Fin (annualRate inp) / Fin 100)) (Fin 0)
         then row.interest (schedule (computeMortgage_rounded rd inp) ! i) = Fin 0 \<and>
              row.principal (schedule (computeMortgage_rounded rd inp) ! i)
                = row.payment (schedule (computeMortgage_rounded rd inp) ! i)
         else row.principal (schedule (computeMortgage_rounded rd inp) ! i)
                = rounded rd (row.payment (schedule (computeMortgage_rounded rd inp) ! i)
                               - row.interest (schedule (computeMortgage_rounded rd inp) ! i))"
proof (cases "js_eq (rounded rd (Fin (annualRate inp) / Fin 100)) (Fin 0)")
  case True
  define pay where
    "pay = rounded rd (Fin (loanAmount inp) / Fin (of_int (Math_round (years inp))))"
  obtain bal' sched' where
    run: "loop_zero_rounded rd pay (Math_round (years inp)) 1 (Fin (loanAmount inp)) []
            = (bal', sched')"
    by (cases "loop_zero_rounded rd pay (Math_round (years inp)) 1 (Fin (loanAmount inp)) []")
  have S: "schedule (computeMortgage_rounded rd inp) = sched'"
    using True run by (simp add: computeMortgage_rounded_def Let_def pay_def)
  from loop_zero_rounded_rows [OF _ _ _ run] assms S True show ?thesis
    by simp
next
  case False
  define r where "r = rounded rd (Fin (annualRate inp) / Fin 100)"
  define g where "g = Math_pow_rounded rd (rounded rd (Fin 1 + r)) (Math_round (years inp))"
  define pay where
    "pay = rounded rd (rounded rd (Fin (loanAmount inp) * rounded rd (r * g))
                         / rounded rd (g - Fin 1))"
  obtain bal' ti' tp' sched' where
    run: "loop_rate_rounded rd pay r (Math_round (years inp)) 1 (Fin (loanAmount inp))
            (Fin 0) (Fin 0) [] = (bal', ti', tp', sched')"
    by (cases "loop_rate_rounded rd pay r (Math_round (years inp)) 1 (Fin (loanAmount inp))
            (Fin 0) (Fin 0) []")
  have S: "schedule (computeMortgage_rounded rd inp) = sched'"
    using False run by (simp add: computeMortgage_rounded_def Let_def pay_def g_def r_def)
  from loop_rate_rounded_rows [OF _ _ _ run] assms S False show ?thesis
    by simp
qed

lemma loop_rate_rounded_length:
  "1 \<le> y \<Longrightarrow> y \<le> n + 1 \<Longrightarrow> length sched = nat (y - 1) \<Longrightarrow>
   loop_rate_rounded rd pay r n y bal ti tp sched = (bal', ti', tp', sched') \<Longrightarrow>
   length sched' = nat n"
proof (induction rd pay r n y bal ti tp sched rule: loop_rate_rounded.induct)
  case (1 rd pay r n y bal ti tp sched)
  show ?case
  proof (cases "y \<le> n")
    case False
    then have "loop_rate_rounded rd pay r n y bal ti tp sched = (bal, ti, tp, sched)"
      by (simp add: loop_rate_rounded.simps [of rd pay r n y])
    with "1.prems" False show ?thesis by simp
  next
    case True
    define iy where "iy = rounded rd (bal * r)"
    define py where "py = (if y = n then bal else rounded rd (pay - iy))"
    define b2 where "b2 = Math_max (Fin 0) (rounded rd (bal - py))"
    let ?x = "\<lparr>year = y, row.payment = pay, row.interest = iy,
                row.principal = py, endingBalance = b2\<rparr>"
    have "loop_rate_rounded rd pay r n y bal ti tp sched
            = loop_rate_rounded rd pay r n (y + 1) b2 (rounded rd (ti + iy))
                (rounded rd (tp + py)) (sched @ [?x])"
      unfolding iy_def py_def b2_def using True
      by (subst loop_rate_rounded.simps) (simp add: Let_def)
    with "1.prems"(4)
    have run: "loop_rate_rounded rd pay r n (y + 1) b2 (rounded rd (ti + iy))
                 (rounded rd (tp + py)) (sched @ [?x]) = (bal', ti', tp', sched')"
      by simp
    show ?thesis
    proof (rule "1.IH" [OF True iy_def py_def b2_def])
      show "1 \<le> y + 1" "y + 1 \<le> n + 1" using "1.prems"(1) True by simp_all
      show "length (sched @ [?x]) = nat (y + 1 - 1)" using "1.prems"(1,3) by simp
    qed (use run in blast)
  qed
qed

lemma loop_zero_rounded_length:
  "1 \<le> y \<Longrightarrow> y \<le> n + 1 \<Longrightarrow> length sched = nat (y - 1) \<Longrightarrow>
   loop_zero_rounded rd pay n y bal sched = (bal', sched') \<Longrightarrow>
   length sched' = nat n"
proof (induction rd pay n y bal sched rule: loop_zero_rounded.induct)
  case (1 rd pay n y bal sched)
  show ?case
  proof (cases "y \<le> n")
    case False
    then have "loop_zero_rounded rd pay n y bal sched = (bal, sched)"
      by (simp add: loop_zero_rounded.simps [of rd pay n y])
    with "1.prems" False show ?thesis by simp
  next
    case True
    define py where "py = (if y = n then bal else pay)"
    define iy where "iy = Fin 0"
    define b2 where "b2 = Math_max (Fin 0) (rounded rd (bal - py))"
    let ?x = "\<lparr>year = y, row.payment = pay, row.interest = iy,
                row.principal = py, endingBalance = b2\<rparr>"
    have "loop_zero_rounded rd pay n y bal sched
            = loop_zero_rounded rd pay n (y + 1) b2 (sched @ [?x])"
      unfolding iy_def py_def b2_def using True
      by (subst loop_zero_rounded.simps) (simp add: Let_def)
    with "1.prems"(4)
    have run: "loop_zero_rounded rd pay n (y + 1) b2 (sched @ [?x]) = (bal', sched')"
      by simp
    show ?thesis
    proof (rule "1.IH" [OF True py_def iy_def b2_def])
      show "1 \<le> y + 1" "y + 1 \<le> n + 1" using "1.prems"(1) True by simp_all
      show "length (sched @ [?x]) = nat (y + 1 - 1)" using "1.prems"(1,3) by simp
    qed (use run in blast)
  qed
qed

lemma computeMortgage_rounded_length:
  assumes "0 \<le> Math_round (years inp)"
  shows "length (schedule (computeMortgage_rounded rd inp)) = nat (Math_round (years inp))"
proof (cases "js_eq (rounded rd (Fin (annualRate inp) / Fin 100)) (Fin 0)")
  case True
  define pay where
    "pay = rounded rd (Fin (loanAmount inp) / Fin (of_int (Math_round (years inp))))"
  obtain bal' sched' where
    run: "loop_zero_rounded rd pay (Math_round (years inp)) 1 (Fin (loanAmount inp)) []
            = (bal', sched')"
    by (cases "loop_zero_rounded rd pay (Math_round (years inp)) 1 (Fin (loanAmount inp)) []")
  have S: "schedule (computeMortgage_rounded rd inp) = sched'"
    using True run by (simp add: computeMortgage_rounded_def Let_def pay_def)
  from loop_zero_rounded_length [OF _ _ _ run] assms S show ?thesis
    by simp
next
  case False
  define r where "r = rounded rd (Fin (annualRate inp) / Fin 100)"
  define g where "g = Math_pow_rounded rd (rounded rd (Fin 1 + r)) (Math_round (years inp))"
  define pay where
    "pay = rounded rd (rounded rd (Fin (loanAmount inp) * rounded rd (r * g))
                         / rounded rd (g - Fin 1))"
  obtain bal' ti' tp' sched' where
    run: "loop_rate_rounded rd pay r (Math_round (years inp)) 1 (Fin (loanAmount inp))
            (Fin 0) (Fin 0) [] = (bal', ti', tp', sched')"
    by (cases "loop_rate_rounded rd pay r (Math_round (years inp)) 1 (Fin (loanAmount inp))
            (Fin 0) (Fin 0) []")
  have S: "schedule (computeMortgage_rounded rd inp) = sched'"
    using False run by (simp add: computeMortgage_rounded_def Let_def pay_def g_def r_def)
  from loop_rate_rounded_length [OF _ _ _ run] assms S show ?thesis
    by simp
qed

text \<open>
  The roundings of the run with loan amount 1000, rate 12.5 and a term of 3 years, and
  the run.
\<close>

lemma binary64_step_1: "binary64 (1 / 8) = Fin (1 / 8)"
proof -
  have z: "(1 / 8 :: real) / 2 powi (-3 - 52) = 4503599627370496"
    by (simp add: power_int_def power_divide)
  have "round_even (4503599627370496) = 4503599627370496"
    by (rule round_even_near) simp
  with z have "round_even ((1 / 8) / 2 powi (-3 - 52)) = 4503599627370496"
    by simp
  then have "binary64 (1 / 8) = Fin (of_int 4503599627370496 * 2 powi (-3 - 52))"
    by (intro binary64_eval) (simp_all add: power_int_def power_divide)
  then show ?thesis
    by (simp add: power_int_def power_divide)
qed

lemma binary64_step_2: "binary64 (9 / 8) = Fin (9 / 8)"
proof -
  have z: "(9 / 8 :: real) / 2 powi (0 - 52) = 5066549580791808"
    by (simp add: power_int_def power_divide)
  have "round_even (5066549580791808) = 5066549580791808"
    by (rule round_even_near) simp
  with z have "round_even ((9 / 8) / 2 powi (0 - 52)) = 5066549580791808"
    by simp
  then have "binary64 (9 / 8) = Fin (of_int 5066549580791808 * 2 powi (0 - 52))"
    by (intro binary64_eval) (simp_all add: power_int_def power_divide)
  then show ?thesis
    by (simp add: power_int_def power_divide)
qed

lemma binary64_step_3: "binary64 (729 / 512) = Fin (729 / 512)"
proof -
  have z: "(729 / 512 :: real) / 2 powi (0 - 52) = 6412351813189632"
    by (simp add: power_int_def power_divide)
  have "round_even (6412351813189632) = 6412351813189632"
    by (rule round_even_near) simp
  with z have "round_even ((729 / 512) / 2 powi (0 - 52)) = 6412351813189632"
    by simp
  then have "binary64 (729 / 512) = Fin (of_int 6412351813189632 * 2 powi (0 - 52))"
    by (intro binary64_eval) (simp_all add: power_int_def power_divide)
  then show ?thesis
    by (simp add: power_int_def power_divide)
qed

lemma binary64_step_4: "binary64 (729 / 4096) = Fin (729 / 4096)"
proof -
  have z: "(729 / 4096 :: real) / 2 powi (-3 - 52) = 6412351813189632"
    by (simp add: power_int_def power_divide)
  have "round_even (6412351813189632) = 6412351813189632"
    by (rule round_even_near) simp
  with z have "round_even ((729 / 4096) / 2 powi (-3 - 52)) = 6412351813189632"
    by simp
  then have "binary64 (729 / 4096) = Fin (of_int 6412351813189632 * 2 powi (-3 - 52))"
    by (intro binary64_eval) (simp_all add: power_int_def power_divide)
  then show ?thesis
    by (simp add: power_int_def power_divide)
qed

lemma binary64_step_5: "binary64 (91125 / 512) = Fin (91125 / 512)"
proof -
  have z: "(91125 / 512 :: real) / 2 powi (7 - 52) = 6262062317568000"
    by (simp add: power_int_def power_divide)
  have "round_even (6262062317568000) = 6262062317568000"
    by (rule round_even_near) simp
  with z have "round_even ((91125 / 512) / 2 powi (7 - 52)) = 6262062317568000"
    by simp
  then have "binary64 (91125 / 512) = Fin (of_int 6262062317568000 * 2 powi (7 - 52))"
    by (intro binary64_eval) (simp_all add: power_int_def power_divide)
  then show ?thesis
    by (simp add: power_int_def power_divide)
qed

lemma binary64_step_6: "binary64 (217 / 512) = Fin (217 / 512)"
proof -
  have z: "(217 / 512 :: real) / 2 powi (-2 - 52) = 7635008743276544"
    by (simp add: power_int_def power_divide)
  have "round_even (7635008743276544) = 7635008743276544"
    by (rule round_even_near) simp
  with z have "round_even ((217 / 512) / 2 powi (-2 - 52)) = 7635008743276544"
    by simp
  then have "binary64 (217 / 512) = Fin (of_int 7635008743276544 * 2 powi (-2 - 52))"
    by (intro binary64_eval) (simp_all add: power_int_def power_divide)
  then show ?thesis
    by (simp add: power_int_def power_divide)
qed

lemma binary64_step_7: "binary64 (91125 / 217) = Fin (7387502088928147 / 17592186044416)"
proof -
  have z: "(91125 / 217 :: real) / 2 powi (8 - 52) = 1603087953297408000 / 217"
    by (simp add: power_int_def power_divide)
  have "round_even (1603087953297408000 / 217) = 7387502088928147"
    by (rule round_even_near) simp
  with z have "round_even ((91125 / 217) / 2 powi (8 - 52)) = 7387502088928147"
    by simp
  then have "binary64 (91125 / 217) = Fin (of_int 7387502088928147 * 2 powi (8 - 52))"
    by (intro binary64_eval) (simp_all add: power_int_def power_divide)
  then show ?thesis
    by (simp add: power_int_def power_divide)
qed

lemma binary64_step_8: "binary64 (125) = Fin 125"
proof -
  have z: "(125 :: real) / 2 powi (6 - 52) = 8796093022208000"
    by (simp add: power_int_def power_divide)
  have "round_even (8796093022208000) = 8796093022208000"
    by (rule round_even_near) simp
  with z have "round_even ((125) / 2 powi (6 - 52)) = 8796093022208000"
    by simp
  then have "binary64 (125) = Fin (of_int 8796093022208000 * 2 powi (6 - 52))"
    by (intro binary64_eval) (simp_all add: power_int_def power_divide)
  then show ?thesis
    by (simp add: power_int_def power_divide)
qed

lemma binary64_step_9: "binary64 (5188478833376147 / 17592186044416) = Fin (5188478833376147 / 17592186044416)"
proof -
  have z: "(5188478833376147 / 17592186044416 :: real) / 2 powi (8 - 52) = 5188478833376147"
    by (simp add: power_int_def power_divide)
  have "round_even (5188478833376147) = 5188478833376147"
    by (rule round_even_near) simp
  with z have "round_even ((5188478833376147 / 17592186044416) / 2 powi (8 - 52)) = 5188478833376147"
    by simp
  then have "binary64 (5188478833376147 / 17592186044416) = Fin (of_int 5188478833376147 * 2 powi (8 - 52))"
    by (intro binary64_eval) (simp_all add: power_int_def power_divide)
  then show ?thesis
    by (simp add: power_int_def power_divide)
qed

lemma binary64_step_10: "binary64 (12403707211039853 / 17592186044416) = Fin (3100926802759963 / 4398046511104)"
proof -
  have z: "(12403707211039853 / 17592186044416 :: real) / 2 powi (9 - 52) = 12403707211039853 / 2"
    by (simp add: power_int_def power_divide)
  have "round_even (12403707211039853 / 2) = 6201853605519926"
    using round_even_tie [of "12403707211039853 / 2" 6201853605519926] by simp
  with z have "round_even ((12403707211039853 / 17592186044416) / 2 powi (9 - 52)) = 6201853605519926"
    by simp
  then have "binary64 (12403707211039853 / 17592186044416) = Fin (of_int 6201853605519926 * 2 powi (9 - 52))"
    by (intro binary64_eval) (simp_all add: power_int_def power_divide)
  then show ?thesis
    by (simp add: power_int_def power_divide)
qed

lemma binary64_step_11: "binary64 (3100926802759963 / 35184372088832) = Fin (3100926802759963 / 35184372088832)"
proof -
  have z: "(3100926802759963 / 35184372088832 :: real) / 2 powi (6 - 52) = 6201853605519926"
    by (simp add: power_int_def power_divide)
  have "round_even (6201853605519926) = 6201853605519926"
    by (rule round_even_near) simp
  with z have "round_even ((3100926802759963 / 35184372088832) / 2 powi (6 - 52)) = 6201853605519926"
    by simp
  then have "binary64 (3100926802759963 / 35184372088832) = Fin (of_int 6201853605519926 * 2 powi (6 - 52))"
    by (intro binary64_eval) (simp_all add: power_int_def power_divide)
  then show ?thesis
    by (simp add: power_int_def power_divide)
qed

lemma binary64_step_12: "binary64 (11674077375096331 / 35184372088832) = Fin (2918519343774083 / 8796093022208)"
proof -
  have z: "(11674077375096331 / 35184372088832 :: real) / 2 powi (8 - 52) = 11674077375096331 / 2"
    by (simp add: power_int_def power_divide)
  have "round_even (11674077375096331 / 2) = 5837038687548166"
    using round_even_tie [of "11674077375096331 / 2" 5837038687548165] by simp
  with z have "round_even ((11674077375096331 / 35184372088832) / 2 powi (8 - 52)) = 5837038687548166"
    by simp
  then have "binary64 (11674077375096331 / 35184372088832) = Fin (of_int 5837038687548166 * 2 powi (8 - 52))"
    by (intro binary64_eval) (simp_all add: power_int_def power_divide)
  then show ?thesis
    by (simp add: power_int_def power_divide)
qed

lemma binary64_step_13: "binary64 (3283334261745843 / 8796093022208) = Fin (3283334261745843 / 8796093022208)"
proof -
  have z: "(3283334261745843 / 8796093022208 :: real) / 2 powi (8 - 52) = 6566668523491686"
    by (simp add: power_int_def power_divide)
  have "round_even (6566668523491686) = 6566668523491686"
    by (rule round_even_near) simp
  with z have "round_even ((3283334261745843 / 8796093022208) / 2 powi (8 - 52)) = 6566668523491686"
    by simp
  then have "binary64 (3283334261745843 / 8796093022208) = Fin (of_int 6566668523491686 * 2 powi (8 - 52))"
    by (intro binary64_eval) (simp_all add: power_int_def power_divide)
  then show ?thesis
    by (simp add: power_int_def power_divide)
qed

lemma binary64_step_14: "binary64 (7498973313863963 / 35184372088832) = Fin (7498973313863963 / 35184372088832)"
proof -
  have z: "(7498973313863963 / 35184372088832 :: real) / 2 powi (7 - 52) = 7498973313863963"
    by (simp add: power_int_def power_divide)
  have "round_even (7498973313863963) = 7498973313863963"
    by (rule round_even_near) simp
  with z have "round_even ((7498973313863963 / 35184372088832) / 2 powi (7 - 52)) = 7498973313863963"
    by simp
  then have "binary64 (7498973313863963 / 35184372088832) = Fin (of_int 7498973313863963 * 2 powi (7 - 52))"
    by (intro binary64_eval) (simp_all add: power_int_def power_divide)
  then show ?thesis
    by (simp add: power_int_def power_divide)
qed

lemma binary64_step_15: "binary64 (11025517520924313 / 17592186044416) = Fin (1378189690115539 / 2199023255552)"
proof -
  have z: "(11025517520924313 / 17592186044416 :: real) / 2 powi (9 - 52) = 11025517520924313 / 2"
    by (simp add: power_int_def power_divide)
  have "round_even (11025517520924313 / 2) = 5512758760462156"
    using round_even_tie [of "11025517520924313 / 2" 5512758760462156] by simp
  with z have "round_even ((11025517520924313 / 17592186044416) / 2 powi (9 - 52)) = 5512758760462156"
    by simp
  then have "binary64 (11025517520924313 / 17592186044416) = Fin (of_int 5512758760462156 * 2 powi (9 - 52))"
    by (intro binary64_eval) (simp_all add: power_int_def power_divide)
  then show ?thesis
    by (simp add: power_int_def power_divide)
qed

lemma binary64_step_16: "binary64 (3283334261745843 / 70368744177664) = Fin (3283334261745843 / 70368744177664)"
proof -
  have z: "(3283334261745843 / 70368744177664 :: real) / 2 powi (5 - 52) = 6566668523491686"
    by (simp add: power_int_def power_divide)
  have "round_even (6566668523491686) = 6566668523491686"
    by (rule round_even_near) simp
  with z have "round_even ((3283334261745843 / 70368744177664) / 2 powi (5 - 52)) = 6566668523491686"
    by simp
  then have "binary64 (3283334261745843 / 70368744177664) = Fin (of_int 6566668523491686 * 2 powi (5 - 52))"
    by (intro binary64_eval) (simp_all add: power_int_def power_divide)
  then show ?thesis
    by (simp add: power_int_def power_divide)
qed

lemma binary64_step_17: "binary64 (18281280889473769 / 70368744177664) = Fin (2285160111184221 / 8796093022208)"
proof -
  have z: "(18281280889473769 / 70368744177664 :: real) / 2 powi (8 - 52) = 18281280889473769 / 4"
    by (simp add: power_int_def power_divide)
  have "round_even (18281280889473769 / 4) = 4570320222368442"
    by (rule round_even_near) simp
  with z have "round_even ((18281280889473769 / 70368744177664) / 2 powi (8 - 52)) = 4570320222368442"
    by simp
  then have "binary64 (18281280889473769 / 70368744177664) = Fin (of_int 4570320222368442 * 2 powi (8 - 52))"
    by (intro binary64_eval) (simp_all add: power_int_def power_divide)
  then show ?thesis
    by (simp add: power_int_def power_divide)
qed

lemma binary64_step_18: "binary64 (8796093022207999 / 8796093022208) = Fin (8796093022207999 / 8796093022208)"
proof -
  have z: "(8796093022207999 / 8796093022208 :: real) / 2 powi (9 - 52) = 8796093022207999"
    by (simp add: power_int_def power_divide)
  have "round_even (8796093022207999) = 8796093022207999"
    by (rule round_even_near) simp
  with z have "round_even ((8796093022207999 / 8796093022208) / 2 powi (9 - 52)) = 8796093022207999"
    by simp
  then have "binary64 (8796093022207999 / 8796093022208) = Fin (of_int 8796093022207999 * 2 powi (9 - 52))"
    by (intro binary64_eval) (simp_all add: power_int_def power_divide)
  then show ?thesis
    by (simp add: power_int_def power_divide)
qed

lemma binary64_step_19: "binary64 (22162506266784441 / 17592186044416) = Fin (2770313283348055 / 2199023255552)"
proof -
  have z: "(22162506266784441 / 17592186044416 :: real) / 2 powi (10 - 52) = 22162506266784441 / 4"
    by (simp add: power_int_def power_divide)
  have "round_even (22162506266784441 / 4) = 5540626566696110"
    by (rule round_even_near) simp
  with z have "round_even ((22162506266784441 / 17592186044416) / 2 powi (10 - 52)) = 5540626566696110"
    by simp
  then have "binary64 (22162506266784441 / 17592186044416) = Fin (of_int 5540626566696110 * 2 powi (10 - 52))"
    by (intro binary64_eval) (simp_all add: power_int_def power_divide)
  then show ?thesis
    by (simp add: power_int_def power_divide)
qed

lemma binary64_step_20: "binary64 (14775004177856295 / 35184372088832) = Fin (1846875522232037 / 4398046511104)"
proof -
  have z: "(14775004177856295 / 35184372088832 :: real) / 2 powi (8 - 52) = 14775004177856295 / 2"
    by (simp add: power_int_def power_divide)
  have "round_even (14775004177856295 / 2) = 7387502088928148"
    using round_even_tie [of "14775004177856295 / 2" 7387502088928147] by simp
  with z have "round_even ((14775004177856295 / 35184372088832) / 2 powi (8 - 52)) = 7387502088928148"
    by simp
  then have "binary64 (14775004177856295 / 35184372088832) = Fin (of_int 7387502088928148 * 2 powi (8 - 52))"
    by (intro binary64_eval) (simp_all add: power_int_def power_divide)
  then show ?thesis
    by (simp add: power_int_def power_divide)
qed

lemmas binary64_steps = binary64_step_1 binary64_step_2 binary64_step_3 binary64_step_4 binary64_step_5 binary64_step_6 binary64_step_7 binary64_step_8 binary64_step_9 binary64_step_10 binary64_step_11 binary64_step_12 binary64_step_13 binary64_step_14 binary64_step_15 binary64_step_16 binary64_step_17 binary64_step_18 binary64_step_19

lemma run_binary64_1000_12_5_3:
  "computeMortgage_rounded binary64 \<lparr>loanAmount = 1000, annualRate = 25 / 2, years = 3\<rparr> =
    \<lparr>result.payment = Fin (7387502088928147 / 17592186044416),
     schedule =
       [\<lparr>year = 1, row.payment = Fin (7387502088928147 / 17592186044416), row.interest = Fin 125,
         row.principal = Fin (5188478833376147 / 17592186044416), endingBalance = Fin (3100926802759963 / 4398046511104)\<rparr>,
        \<lparr>year = 2, row.payment = Fin (7387502088928147 / 17592186044416), row.interest = Fin (3100926802759963 / 35184372088832),
         row.principal = Fin (2918519343774083 / 8796093022208), endingBalance = Fin (3283334261745843 / 8796093022208)\<rparr>,
        \<lparr>year = 3, row.payment = Fin (7387502088928147 / 17592186044416), row.interest = Fin (3283334261745843 / 70368744177664),
         row.principal = Fin (3283334261745843 / 8796093022208), endingBalance = Fin 0\<rparr>],
     totals = \<lparr>totals.payment = Fin (2770313283348055 / 2199023255552), totals.interest = Fin (2285160111184221 / 8796093022208),
               totals.principal = Fin (8796093022207999 / 8796093022208)\<rparr>\<rparr>"
  by (simp add: Let_def computeMortgage_rounded_def Math_round_def loop_rate_rounded.simps
      eval_nat_numeral binary64_steps)

section \<open>The claims over exact arithmetic\<close>

lemma exact_balances:
  assumes "0 < loanAmount inp" and "0 \<le> annualRate inp" and "1 \<le> Math_round (years inp)"
  shows "length (schedule (computeMortgage inp)) = nat (Math_round (years inp)) \<and>
         (\<forall>i < nat (Math_round (years inp)).
            js_le (Fin 0) (endingBalance (schedule (computeMortgage inp) ! i)) \<and>
            js_le (endingBalance (schedule (computeMortgage inp) ! i))
              (balance_before (loanAmount inp) (schedule (computeMortgage inp)) i)) \<and>
         js_eq (endingBalance (schedule (computeMortgage inp) ! (nat (Math_round (years inp)) - 1)))
           (Fin 0)"
proof -
  let ?res = "computeMortgage inp" and ?P = "loanAmount inp"
  define N where "N = nat (Math_round (years inp))"
  have N: "0 < N" using assms(3) by (simp add: N_def)
  have last: "N - 1 < N" "Suc (N - 1) = N" using N by simp_all
  have "length (schedule ?res) = N \<and>
        (\<forall>i<N. js_le (Fin 0) (endingBalance (schedule ?res ! i)) \<and>
               js_le (endingBalance (schedule ?res ! i)) (balance_before ?P (schedule ?res) i)) \<and>
        js_eq (endingBalance (schedule ?res ! (N - 1))) (Fin 0)"
  proof (cases "annualRate inp = 0")
    case True
    note v = valid_zero [OF assms(1) True assms(3), folded N_def]
    have "\<forall>i<N. js_le (Fin 0) (endingBalance (schedule ?res ! i)) \<and>
               js_le (endingBalance (schedule ?res ! i)) (balance_before ?P (schedule ?res) i)"
    proof (intro allI impI)
      fix i assume i: "i < N"
      have "0 \<le> zero_balance ?P N (Suc i)"
        using assms(1) i N by (intro zero_balance_nonneg) simp_all
      moreover have "zero_balance ?P N (Suc i) \<le> zero_balance ?P N i"
        using assms(1) N by (simp add: zero_balance_Suc)
      ultimately show "js_le (Fin 0) (endingBalance (schedule ?res ! i)) \<and>
               js_le (endingBalance (schedule ?res ! i)) (balance_before ?P (schedule ?res) i)"
        using v(3) [rule_format, OF i] v(4) [rule_format, of i] i by simp
    qed
    moreover have "js_eq (endingBalance (schedule ?res ! (N - 1))) (Fin 0)"
      using v(3) [rule_format, OF last(1)] N by (simp add: last(2) zero_balance_n)
    ultimately show ?thesis using v(2) by blast
  next
    case False
    with assms(2) have r: "0 < annualRate inp" by simp
    then have r0: "0 < annualRate inp / 100" by simp
    note v = valid_rate [OF assms(1) r assms(3), folded N_def]
    have "\<forall>i<N. js_le (Fin 0) (endingBalance (schedule ?res ! i)) \<and>
               js_le (endingBalance (schedule ?res ! i)) (balance_before ?P (schedule ?res) i)"
    proof (intro allI impI)
      fix i assume i: "i < N"
      have "0 \<le> rate_balance ?P (annualRate inp / 100) N (Suc i)"
        using assms(1) r0 i N by (intro rate_balance_nonneg) simp_all
      moreover have "rate_balance ?P (annualRate inp / 100) N (Suc i)
                       \<le> rate_balance ?P (annualRate inp / 100) N i"
        using assms(1) r0 N by (intro rate_balance_decreasing)
      ultimately show "js_le (Fin 0) (endingBalance (schedule ?res ! i)) \<and>
               js_le (endingBalance (schedule ?res ! i)) (balance_before ?P (schedule ?res) i)"
        using v(3) [rule_format, OF i] v(4) [rule_format, of i] i by simp
    qed
    moreover have "js_eq (endingBalance (schedule ?res ! (N - 1))) (Fin 0)"
      using v(3) [rule_format, OF last(1)] N by (simp add: rate_balance_n)
    ultimately show ?thesis using v(2) by blast
  qed
  then show ?thesis unfolding N_def .
qed

lemma exact_final_year:
  assumes "0 < annualRate inp" and "1 \<le> Math_round (years inp)"
  shows "\<forall>i < nat (Math_round (years inp)).
           row.interest (schedule (computeMortgage inp) ! i) =
             balance_before (loanAmount inp) (schedule (computeMortgage inp)) i
               * Fin (annualRate inp / 100) \<and>
           row.principal (schedule (computeMortgage inp) ! i) =
             (if int i + 1 = Math_round (years inp)
              then balance_before (loanAmount inp) (schedule (computeMortgage inp)) i
              else result.payment (computeMortgage inp)
                     - row.interest (schedule (computeMortgage inp) ! i)) \<and>
           endingBalance (schedule (computeMortgage inp) ! i) =
             (if int i + 1 = Math_round (years inp) then Fin 0
              else Math_max (Fin 0)
                     (balance_before (loanAmount inp) (schedule (computeMortgage inp)) i
                        - row.principal (schedule (computeMortgage inp) ! i)))"
proof (intro allI impI)
  fix i assume i: "i < nat (Math_round (years inp))"
  let ?n = "Math_round (years inp)" and ?P = "loanAmount inp"
  let ?r = "annualRate inp / 100" and ?res = "computeMortgage inp"
  have r: "annualRate inp \<noteq> 0" and n: "0 \<le> ?n" and r0: "0 < ?r"
    using assms by simp_all
  have pay: "result.payment ?res = Fin (annuity ?P ?r (nat ?n))"
    using computeMortgage_rate(1) [OF r n] r0 assms(2) by (simp add: payment_closed)
  have rows: "\<forall>i<nat ?n. rate_row (Fin (annuity ?P ?r (nat ?n))) ?r ?n ?P (schedule ?res) i"
    using computeMortgage_rate(3) [OF r n] pay by simp
  from rows i have row: "rate_row (result.payment ?res) ?r ?n ?P (schedule ?res) i"
    using pay by simp
  obtain b where bb: "balance_before ?P (schedule ?res) i = Fin b"
    using rate_balance_finite [OF rows, of i] i by auto
  from row bb
  show "row.interest (schedule ?res ! i) = balance_before ?P (schedule ?res) i * Fin ?r \<and>
        row.principal (schedule ?res ! i) =
          (if int i + 1 = ?n then balance_before ?P (schedule ?res) i
           else result.payment ?res - row.interest (schedule ?res ! i)) \<and>
        endingBalance (schedule ?res ! i) =
          (if int i + 1 = ?n then Fin 0
           else Math_max (Fin 0)
                  (balance_before ?P (schedule ?res) i - row.principal (schedule ?res ! i)))"
    by (simp add: rate_row_def)
qed


lemma exact_total_principal:
  assumes "0 < loanAmount inp" and "0 \<le> annualRate inp" and "1 \<le> Math_round (years inp)"
  shows "totals.principal (totals (computeMortgage inp)) = Fin (loanAmount inp) \<and>
         foldl (+) (Fin 0) (map row.principal (schedule (computeMortgage inp)))
           = Fin (loanAmount inp)"
proof (cases "annualRate inp = 0")
  case True
  let ?res = "computeMortgage inp" and ?P = "loanAmount inp"
  define N where "N = nat (Math_round (years inp))"
  have N: "0 < N" using assms(3) by (simp add: N_def)
  note v = valid_zero [OF assms(1) True assms(3), folded N_def]
  have "\<forall>i<length (schedule ?res). row.principal (schedule ?res ! i) = Fin (?P / real N)"
    using v(2,3) by simp
  then have "foldl (+) (Fin 0) (map row.principal (schedule ?res))
               = Fin (\<Sum>i<N. ?P / real N)"
    using foldl_plus_Fin [of "schedule ?res" row.principal "\<lambda>i. ?P / real N"] v(2) by simp
  also have "(\<Sum>i<N. ?P / real N) = ?P" using N by simp
  finally show ?thesis using v(5) by simp
next
  case False
  with assms(2) have r: "0 < annualRate inp" by simp
  have n: "0 \<le> Math_round (years inp)" using assms(3) by simp
  note v = valid_rate [OF assms(1) r assms(3)]
  from computeMortgage_rate(4) [OF False n]
  have "totals.principal (totals (computeMortgage inp))
          = foldl (+) (Fin 0) (map row.principal (schedule (computeMortgage inp)))"
    by simp
  then show ?thesis using v(5) by simp
qed

section \<open>The rows and the totals, whatever the rounding\<close>

lemma rate_row_rounded_append:
  "i < length sched \<Longrightarrow>
   rate_row_rounded rd pay r n P (sched @ [x]) i = rate_row_rounded rd pay r n P sched i"
  by (simp add: rate_row_rounded_def balance_before_append nth_append)

lemma zero_row_rounded_append:
  "i < length sched \<Longrightarrow>
   zero_row_rounded rd pay n P (sched @ [x]) i = zero_row_rounded rd pay n P sched i"
  by (simp add: zero_row_rounded_def balance_before_append nth_append)

lemma running_sum_snoc: "running_sum rd (xs @ [x]) = rounded rd (running_sum rd xs + x)"
  by (simp add: running_sum_def)

lemma loop_rate_rounded_all:
  "1 \<le> y \<Longrightarrow> y \<le> n + 1 \<Longrightarrow> length sched = nat (y - 1) \<Longrightarrow>
   bal = balance_before P sched (length sched) \<Longrightarrow>
   (\<forall>i<length sched. rate_row_rounded rd pay r n P sched i) \<Longrightarrow>
   ti = running_sum rd (map row.interest sched) \<Longrightarrow>
   tp = running_sum rd (map row.principal sched) \<Longrightarrow>
   loop_rate_rounded rd pay r n y bal ti tp sched = (bal', ti', tp', sched') \<Longrightarrow>
   length sched' = nat n \<and> (\<forall>i<nat n. rate_row_rounded rd pay r n P sched' i) \<and>
   ti' = running_sum rd (map row.interest sched') \<and>
   tp' = running_sum rd (map row.principal sched')"
proof (induction rd pay r n y bal ti tp sched rule: loop_rate_rounded.induct)
  case (1 rd pay r n y bal ti tp sched)
  show ?case
  proof (cases "y \<le> n")
    case False
    with "1.prems" have yn: "y = n + 1" by simp
    from False have "loop_rate_rounded rd pay r n y bal ti tp sched = (bal, ti, tp, sched)"
      by (simp add: loop_rate_rounded.simps [of rd pay r n y])
    with "1.prems" yn show ?thesis by simp
  next
    case True
    define iy where "iy = rounded rd (bal * r)"
    define py where "py = (if y = n then bal else rounded rd (pay - iy))"
    define b2 where "b2 = Math_max (Fin 0) (rounded rd (bal - py))"
    let ?x = "\<lparr>year = y, row.payment = pay, row.interest = iy,
                row.principal = py, endingBalance = b2\<rparr>"
    have "loop_rate_rounded rd pay r n y bal ti tp sched
            = loop_rate_rounded rd pay r n (y + 1) b2 (rounded rd (ti + iy))
                (rounded rd (tp + py)) (sched @ [?x])"
      unfolding iy_def py_def b2_def using True
      by (subst loop_rate_rounded.simps) (simp add: Let_def)
    with "1.prems"(8)
    have run: "loop_rate_rounded rd pay r n (y + 1) b2 (rounded rd (ti + iy))
                 (rounded rd (tp + py)) (sched @ [?x]) = (bal', ti', tp', sched')"
      by simp
    have len: "length (sched @ [?x]) = nat (y + 1 - 1)"
      using "1.prems"(1,3) by simp
    have yi: "int (length sched) + 1 = y"
      using "1.prems"(1,3) by simp
    have new: "rate_row_rounded rd pay r n P (sched @ [?x]) (length sched)"
      using "1.prems"(4) yi
      by (simp add: rate_row_rounded_def balance_before_append iy_def py_def b2_def)
    have rows: "\<forall>i<length (sched @ [?x]). rate_row_rounded rd pay r n P (sched @ [?x]) i"
      using "1.prems"(5) new by (auto simp: less_Suc_eq rate_row_rounded_append)
    have bal2: "b2 = balance_before P (sched @ [?x]) (length (sched @ [?x]))"
      by (simp add: balance_before_snoc)
    show ?thesis
    proof (rule "1.IH" [OF True iy_def py_def b2_def])
      show "1 \<le> y + 1" "y + 1 \<le> n + 1"
        using "1.prems"(1) True by simp_all
      show "rounded rd (ti + iy) = running_sum rd (map row.interest (sched @ [?x]))"
        "rounded rd (tp + py) = running_sum rd (map row.principal (sched @ [?x]))"
        using "1.prems"(6,7) by (simp_all add: running_sum_snoc)
    qed (use len bal2 rows run in blast)+
  qed
qed

lemma loop_zero_rounded_all:
  "1 \<le> y \<Longrightarrow> y \<le> n + 1 \<Longrightarrow> length sched = nat (y - 1) \<Longrightarrow>
   bal = balance_before P sched (length sched) \<Longrightarrow>
   (\<forall>i<length sched. zero_row_rounded rd pay n P sched i) \<Longrightarrow>
   loop_zero_rounded rd pay n y bal sched = (bal', sched') \<Longrightarrow>
   length sched' = nat n \<and> (\<forall>i<nat n. zero_row_rounded rd pay n P sched' i)"
proof (induction rd pay n y bal sched rule: loop_zero_rounded.induct)
  case (1 rd pay n y bal sched)
  show ?case
  proof (cases "y \<le> n")
    case False
    with "1.prems" have yn: "y = n + 1" by simp
    from False have "loop_zero_rounded rd pay n y bal sched = (bal, sched)"
      by (simp add: loop_zero_rounded.simps [of rd pay n y])
    with "1.prems" yn show ?thesis by simp
  next
    case True
    define py where "py = (if y = n then bal else pay)"
    define iy where "iy = Fin 0"
    define b2 where "b2 = Math_max (Fin 0) (rounded rd (bal - py))"
    let ?x = "\<lparr>year = y, row.payment = pay, row.interest = iy,
                row.principal = py, endingBalance = b2\<rparr>"
    have "loop_zero_rounded rd pay n y bal sched
            = loop_zero_rounded rd pay n (y + 1) b2 (sched @ [?x])"
      unfolding iy_def py_def b2_def using True
      by (subst loop_zero_rounded.simps) (simp add: Let_def)
    with "1.prems"(6)
    have run: "loop_zero_rounded rd pay n (y + 1) b2 (sched @ [?x]) = (bal', sched')"
      by simp
    have len: "length (sched @ [?x]) = nat (y + 1 - 1)"
      using "1.prems"(1,3) by simp
    have yi: "int (length sched) + 1 = y"
      using "1.prems"(1,3) by simp
    have new: "zero_row_rounded rd pay n P (sched @ [?x]) (length sched)"
      using "1.prems"(4) yi
      by (simp add: zero_row_rounded_def balance_before_append iy_def py_def b2_def)
    have rows: "\<forall>i<length (sched @ [?x]). zero_row_rounded rd pay n P (sched @ [?x]) i"
      using "1.prems"(5) new by (auto simp: less_Suc_eq zero_row_rounded_append)
    have bal2: "b2 = balance_before P (sched @ [?x]) (length (sched @ [?x]))"
      by (simp add: balance_before_snoc)
    show ?thesis
    proof (rule "1.IH" [OF True py_def iy_def b2_def])
      show "1 \<le> y + 1" "y + 1 \<le> n + 1"
        using "1.prems"(1) True by simp_all
    qed (use len bal2 rows run in blast)+
  qed
qed

lemma computeMortgage_rounded_zero:
  assumes "js_eq (rounded rd (Fin (annualRate inp) / Fin 100)) (Fin 0)"
    and "0 \<le> Math_round (years inp)"
  defines "res \<equiv> computeMortgage_rounded rd inp" and "n \<equiv> Math_round (years inp)"
    and "P \<equiv> loanAmount inp"
  shows "result.payment res = rounded rd (Fin P / Fin (of_int n))"
    and "length (schedule res) = nat n"
    and "\<forall>i<nat n. zero_row_rounded rd (result.payment res) n P (schedule res) i"
    and "totals res = \<lparr>totals.payment = rounded rd (result.payment res * Fin (of_int n)),
                        totals.interest = Fin 0, totals.principal = Fin P\<rparr>"
proof -
  define pay where "pay = rounded rd (Fin P / Fin (of_int n))"
  obtain bal' sched' where
    run: "loop_zero_rounded rd pay n 1 (Fin P) [] = (bal', sched')"
    by (cases "loop_zero_rounded rd pay n 1 (Fin P) []")
  have res: "res = \<lparr>result.payment = pay, schedule = sched',
                     totals = \<lparr>totals.payment = rounded rd (pay * Fin (of_int n)),
                                totals.interest = Fin 0, totals.principal = Fin P\<rparr>\<rparr>"
    using assms(1) run
    by (simp add: res_def computeMortgage_rounded_def n_def P_def pay_def Let_def)
  have "length sched' = nat n \<and> (\<forall>i<nat n. zero_row_rounded rd pay n P sched' i)"
    using assms(2) run
    by (intro loop_zero_rounded_all [where y = 1 and sched = "[]" and bal = "Fin P"])
       (simp_all add: n_def balance_before_def)
  with res show "result.payment res = rounded rd (Fin P / Fin (of_int n))"
    and "length (schedule res) = nat n"
    and "\<forall>i<nat n. zero_row_rounded rd (result.payment res) n P (schedule res) i"
    and "totals res = \<lparr>totals.payment = rounded rd (result.payment res * Fin (of_int n)),
                        totals.interest = Fin 0, totals.principal = Fin P\<rparr>"
    by (simp_all add: pay_def)
qed

lemma computeMortgage_rounded_rate:
  assumes "\<not> js_eq (rounded rd (Fin (annualRate inp) / Fin 100)) (Fin 0)"
    and "0 \<le> Math_round (years inp)"
  defines "res \<equiv> computeMortgage_rounded rd inp" and "n \<equiv> Math_round (years inp)"
    and "P \<equiv> loanAmount inp" and "r \<equiv> rounded rd (Fin (annualRate inp) / Fin 100)"
  shows "result.payment res =
           rounded rd (rounded rd (Fin P * rounded rd
                         (r * Math_pow_rounded rd (rounded rd (Fin 1 + r)) n))
                       / rounded rd (Math_pow_rounded rd (rounded rd (Fin 1 + r)) n - Fin 1))"
    and "length (schedule res) = nat n"
    and "\<forall>i<nat n. rate_row_rounded rd (result.payment res) r n P (schedule res) i"
    and "totals res =
           \<lparr>totals.payment = rounded rd (result.payment res * Fin (of_int n)),
            totals.interest = running_sum rd (map row.interest (schedule res)),
            totals.principal = running_sum rd (map row.principal (schedule res))\<rparr>"
proof -
  define g where "g = Math_pow_rounded rd (rounded rd (Fin 1 + r)) n"
  define pay where
    "pay = rounded rd (rounded rd (Fin P * rounded rd (r * g)) / rounded rd (g - Fin 1))"
  obtain bal' ti' tp' sched' where
    run: "loop_rate_rounded rd pay r n 1 (Fin P) (Fin 0) (Fin 0) [] = (bal', ti', tp', sched')"
    by (cases "loop_rate_rounded rd pay r n 1 (Fin P) (Fin 0) (Fin 0) []")
  have res: "res = \<lparr>result.payment = pay, schedule = sched',
                     totals = \<lparr>totals.payment = rounded rd (pay * Fin (of_int n)),
                                totals.interest = ti', totals.principal = tp'\<rparr>\<rparr>"
    using assms(1) run
    by (simp add: res_def computeMortgage_rounded_def n_def P_def r_def pay_def g_def Let_def)
  have "length sched' = nat n \<and> (\<forall>i<nat n. rate_row_rounded rd pay r n P sched' i) \<and>
        ti' = running_sum rd (map row.interest sched') \<and>
        tp' = running_sum rd (map row.principal sched')"
    using assms(2) run
    by (intro loop_rate_rounded_all [where y = 1 and sched = "[]" and bal = "Fin P"
          and ti = "Fin 0" and tp = "Fin 0"])
       (simp_all add: n_def balance_before_def running_sum_def)
  with res show "result.payment res =
           rounded rd (rounded rd (Fin P * rounded rd
                         (r * Math_pow_rounded rd (rounded rd (Fin 1 + r)) n))
                       / rounded rd (Math_pow_rounded rd (rounded rd (Fin 1 + r)) n - Fin 1))"
    and "length (schedule res) = nat n"
    and "\<forall>i<nat n. rate_row_rounded rd (result.payment res) r n P (schedule res) i"
    and "totals res =
           \<lparr>totals.payment = rounded rd (result.payment res * Fin (of_int n)),
            totals.interest = running_sum rd (map row.interest (schedule res)),
            totals.principal = running_sum rd (map row.principal (schedule res))\<rparr>"
    by (simp_all add: pay_def g_def)
qed




lemma totals_principal_rounded:
  assumes "0 \<le> Math_round (years inp)"
  shows "totals.principal (totals (computeMortgage_rounded rd inp))
           = (if js_eq (rounded rd (Fin (annualRate inp) / Fin 100)) (Fin 0)
              then Fin (loanAmount inp)
              else foldl (\<lambda>a x. rounded rd (a + x)) (Fin 0)
                     (map row.principal (schedule (computeMortgage_rounded rd inp))))"
proof (cases "js_eq (rounded rd (Fin (annualRate inp) / Fin 100)) (Fin 0)")
  case True
  from computeMortgage_rounded_zero(4) [OF True assms] True show ?thesis by simp
next
  case False
  from computeMortgage_rounded_rate(4) [OF False assms] False show ?thesis
    by (simp add: running_sum_def)
qed

lemma final_balance_cleared:
  assumes "rd 0 = Fin 0" and "js_isFinite bb"
  shows "Math_max (Fin 0) (rounded rd (bb - bb)) = Fin 0"
  using assms by (cases bb) simp_all

lemma Math_max_0_nonneg: "Math_max (Fin 0) x = NaN \<or> js_le (Fin 0) (Math_max (Fin 0) x)"
  by (cases x) simp_all

lemma ending_balance_rounded:
  assumes "i < nat (Math_round (years inp))"
  shows "endingBalance (schedule (computeMortgage_rounded rd inp) ! i)
           = Math_max (Fin 0)
               (rounded rd (balance_before (loanAmount inp)
                              (schedule (computeMortgage_rounded rd inp)) i
                            - row.principal (schedule (computeMortgage_rounded rd inp) ! i)))"
    and "int i + 1 = Math_round (years inp) \<Longrightarrow>
         row.principal (schedule (computeMortgage_rounded rd inp) ! i)
           = balance_before (loanAmount inp) (schedule (computeMortgage_rounded rd inp)) i"
proof -
  from assms have n: "0 \<le> Math_round (years inp)" by simp
  have "endingBalance (schedule (computeMortgage_rounded rd inp) ! i)
           = Math_max (Fin 0)
               (rounded rd (balance_before (loanAmount inp)
                              (schedule (computeMortgage_rounded rd inp)) i
                            - row.principal (schedule (computeMortgage_rounded rd inp) ! i))) \<and>
        (int i + 1 = Math_round (years inp) \<longrightarrow>
         row.principal (schedule (computeMortgage_rounded rd inp) ! i)
           = balance_before (loanAmount inp) (schedule (computeMortgage_rounded rd inp)) i)"
  proof (cases "js_eq (rounded rd (Fin (annualRate inp) / Fin 100)) (Fin 0)")
    case True
    from computeMortgage_rounded_zero(3) [OF True n] assms show ?thesis
      by (simp add: zero_row_rounded_def)
  next
    case False
    from computeMortgage_rounded_rate(3) [OF False n] assms show ?thesis
      by (simp add: rate_row_rounded_def)
  qed
  then show "endingBalance (schedule (computeMortgage_rounded rd inp) ! i)
           = Math_max (Fin 0)
               (rounded rd (balance_before (loanAmount inp)
                              (schedule (computeMortgage_rounded rd inp)) i
                            - row.principal (schedule (computeMortgage_rounded rd inp) ! i)))"
    and "int i + 1 = Math_round (years inp) \<Longrightarrow>
         row.principal (schedule (computeMortgage_rounded rd inp) ! i)
           = balance_before (loanAmount inp) (schedule (computeMortgage_rounded rd inp)) i"
    by simp_all
qed

lemma final_balance_rounded:
  assumes "1 \<le> Math_round (years inp)" and "rd 0 = Fin 0"
    and "js_isFinite (balance_before (loanAmount inp) (schedule (computeMortgage_rounded rd inp))
                        (nat (Math_round (years inp)) - 1))"
  shows "endingBalance (schedule (computeMortgage_rounded rd inp)
                          ! (nat (Math_round (years inp)) - 1)) = Fin 0"
proof -
  let ?i = "nat (Math_round (years inp)) - 1"
  have i: "?i < nat (Math_round (years inp))" and l: "int ?i + 1 = Math_round (years inp)"
    using assms(1) by simp_all
  from ending_balance_rounded [OF i, of rd] l
  have "endingBalance (schedule (computeMortgage_rounded rd inp) ! ?i)
          = Math_max (Fin 0)
              (rounded rd (balance_before (loanAmount inp)
                             (schedule (computeMortgage_rounded rd inp)) ?i
                           - balance_before (loanAmount inp)
                               (schedule (computeMortgage_rounded rd inp)) ?i))"
    by simp
  also have "\<dots> = Fin 0"
    using assms(2,3) by (rule final_balance_cleared)
  finally show ?thesis .
qed

lemma jsnum_plus_NaN [simp]: "a + NaN = NaN"
  by (cases a) simp_all

lemma nan_payment_balance:
  assumes rows: "\<forall>i<N. rate_row_rounded rd NaN r n P sched i"
    and N: "int N = n" and i: "i < N" and "2 \<le> N"
  shows "endingBalance (sched ! i) = NaN"
proof -
  have early: "endingBalance (sched ! j) = NaN" if "j < N" and "int j + 1 \<noteq> n" for j
  proof -
    from rows that have "rate_row_rounded rd NaN r n P sched j" by simp
    with that(2) show ?thesis
      by (simp add: rate_row_rounded_def minus_jsnum_def)
  qed
  show ?thesis
  proof (cases "int i + 1 = n")
    case False
    with i show ?thesis by (rule early)
  next
    case True
    with N assms(4) have j: "i - 1 < N" "int (i - 1) + 1 \<noteq> n" "i \<noteq> 0" by simp_all
    from early [OF j(1,2)] j(3) have "balance_before P sched i = NaN"
      by (simp add: balance_before_def)
    moreover from rows i have "rate_row_rounded rd NaN r n P sched i" by simp
    ultimately show ?thesis
      using True by (simp add: rate_row_rounded_def minus_jsnum_def)
  qed
qed

section \<open>Overflow\<close>

lemma exponent_from_top:
  "2 powi (e0 + int k) \<le> x \<Longrightarrow> exponent_from k e0 x = e0 + int k"
proof (induction k arbitrary: e0)
  case 0
  then show ?case by simp
next
  case (Suc k)
  have "(2::real) powi (e0 + 1) \<le> 2 powi (e0 + int (Suc k))"
    by (intro power_int_increasing) simp_all
  with Suc.prems have "2 powi (e0 + 1) \<le> x" by simp
  moreover have "exponent_from k (e0 + 1) x = e0 + 1 + int k"
    using Suc.prems by (intro Suc.IH) (simp add: ac_simps)
  ultimately show ?case by simp
qed

lemma round_even_ge: "of_int m \<le> z \<Longrightarrow> m \<le> round_even z"
proof -
  assume "of_int m \<le> z"
  then have "m \<le> \<lfloor>z\<rfloor>" by (simp add: le_floor_iff)
  then show ?thesis by (simp add: round_even_def Let_def)
qed

lemma binary64_overflow:
  assumes "2 powi 1024 \<le> x"
  shows "binary64 x = PInf"
proof -
  have p: "0 < (2::real) powi 1024" by (rule zero_less_power_int) simp
  with assms have x: "0 < x" by linarith
  have e: "exponent64 x = 1024"
    unfolding exponent64_def using exponent_from_top [of "- 1022" 2046 "\<bar>x\<bar>"] assms x by simp
  define u :: real where "u = 2 powi 972"
  have u: "0 < u" unfolding u_def by (rule zero_less_power_int) simp
  have split: "(2::real) powi 1024 = 2 ^ 52 * u"
    unfolding u_def by (simp add: power_int_def flip: power_add)
  with assms u have "2 ^ 52 \<le> x / u" by (simp add: pos_le_divide_eq)
  then have "(2::int) ^ 52 \<le> round_even (x / u)"
    by (intro round_even_ge) simp
  then have "(2::real) ^ 52 \<le> of_int (round_even (x / u))"
    by (metis of_int_le_iff of_int_numeral of_int_power)
  then have "2 ^ 52 * u \<le> of_int (round_even (x / u)) * u"
    using u by (intro mult_right_mono) simp_all
  then have "2 powi 1024 \<le> \<bar>of_int (round_even (x / u)) * u\<bar>"
    using split by linarith
  then show ?thesis
    using x by (simp add: binary64_def e Let_def u_def)
qed

section \<open>More runs in double arithmetic\<close>

text \<open>
  The roundings of the runs the claims are tried on, and the runs.
\<close>

lemma binary64_step_21: "binary64 (26266674093966745 / 70368744177664) = Fin (3283334261745843 / 8796093022208)"
proof -
  have z: "(26266674093966745 / 70368744177664 :: real) / 2 powi (8 - 52) = 26266674093966745 / 4"
    by (simp add: power_int_def power_divide)
  have "round_even (26266674093966745 / 4) = 6566668523491686"
    by (rule round_even_near) simp
  with z have "round_even ((26266674093966745 / 70368744177664) / 2 powi (8 - 52)) = 6566668523491686"
    by simp
  then have "binary64 (26266674093966745 / 70368744177664) = Fin (of_int 6566668523491686 * 2 powi (8 - 52))"
    by (intro binary64_eval) (simp_all add: power_int_def power_divide)
  then show ?thesis
    by (simp add: power_int_def power_divide)
qed

lemma binary64_step_22: "binary64 (2770313283348055 / 2199023255552) = Fin (2770313283348055 / 2199023255552)"
proof -
  have z: "(2770313283348055 / 2199023255552 :: real) / 2 powi (10 - 52) = 5540626566696110"
    by (simp add: power_int_def power_divide)
  have "round_even (5540626566696110) = 5540626566696110"
    by (rule round_even_near) simp
  with z have "round_even ((2770313283348055 / 2199023255552) / 2 powi (10 - 52)) = 5540626566696110"
    by simp
  then have "binary64 (2770313283348055 / 2199023255552) = Fin (of_int 5540626566696110 * 2 powi (10 - 52))"
    by (intro binary64_eval) (simp_all add: power_int_def power_divide)
  then show ?thesis
    by (simp add: power_int_def power_divide)
qed

lemma binary64_step_23: "binary64 (1 / 112589990684262400) = Fin (5764607523034235 / 649037107316853453566312041152512)"
proof -
  have z: "(1 / 112589990684262400 :: real) / 2 powi (-57 - 52) = 144115188075855872 / 25"
    by (simp add: power_int_def power_divide)
  have "round_even (144115188075855872 / 25) = 5764607523034235"
    by (rule round_even_near) simp
  with z have "round_even ((1 / 112589990684262400) / 2 powi (-57 - 52)) = 5764607523034235"
    by simp
  then have "binary64 (1 / 112589990684262400) = Fin (of_int 5764607523034235 * 2 powi (-57 - 52))"
    by (intro binary64_eval) (simp_all add: power_int_def power_divide)
  then show ?thesis
    by (simp add: power_int_def power_divide)
qed

lemma binary64_step_24: "binary64 (649037107316853459330919564186747 / 649037107316853453566312041152512) = Fin 1"
proof -
  have z: "(649037107316853459330919564186747 / 649037107316853453566312041152512 :: real) / 2 powi (0 - 52) = 649037107316853459330919564186747 / 144115188075855872"
    by (simp add: power_int_def power_divide)
  have "round_even (649037107316853459330919564186747 / 144115188075855872) = 4503599627370496"
    by (rule round_even_near) simp
  with z have "round_even ((649037107316853459330919564186747 / 649037107316853453566312041152512) / 2 powi (0 - 52)) = 4503599627370496"
    by simp
  then have "binary64 (649037107316853459330919564186747 / 649037107316853453566312041152512) = Fin (of_int 4503599627370496 * 2 powi (0 - 52))"
    by (intro binary64_eval) (simp_all add: power_int_def power_divide)
  then show ?thesis
    by (simp add: power_int_def power_divide)
qed

lemma binary64_step_25: "binary64 (1) = Fin 1"
proof -
  have z: "(1 :: real) / 2 powi (0 - 52) = 4503599627370496"
    by (simp add: power_int_def power_divide)
  have "round_even (4503599627370496) = 4503599627370496"
    by (rule round_even_near) simp
  with z have "round_even ((1) / 2 powi (0 - 52)) = 4503599627370496"
    by simp
  then have "binary64 (1) = Fin (of_int 4503599627370496 * 2 powi (0 - 52))"
    by (intro binary64_eval) (simp_all add: power_int_def power_divide)
  then show ?thesis
    by (simp add: power_int_def power_divide)
qed

lemma binary64_step_26: "binary64 (5764607523034235 / 649037107316853453566312041152512) = Fin (5764607523034235 / 649037107316853453566312041152512)"
proof -
  have z: "(5764607523034235 / 649037107316853453566312041152512 :: real) / 2 powi (-57 - 52) = 5764607523034235"
    by (simp add: power_int_def power_divide)
  have "round_even (5764607523034235) = 5764607523034235"
    by (rule round_even_near) simp
  with z have "round_even ((5764607523034235 / 649037107316853453566312041152512) / 2 powi (-57 - 52)) = 5764607523034235"
    by simp
  then have "binary64 (5764607523034235 / 649037107316853453566312041152512) = Fin (of_int 5764607523034235 * 2 powi (-57 - 52))"
    by (intro binary64_eval) (simp_all add: power_int_def power_divide)
  then show ?thesis
    by (simp add: power_int_def power_divide)
qed

lemma binary64_step_27: "binary64 (720575940379279375 / 81129638414606681695789005144064) = Fin (5 / 562949953421312)"
proof -
  have z: "(720575940379279375 / 81129638414606681695789005144064 :: real) / 2 powi (-47 - 52) = 720575940379279375 / 128"
    by (simp add: power_int_def power_divide)
  have "round_even (720575940379279375 / 128) = 5629499534213120"
    by (rule round_even_near) simp
  with z have "round_even ((720575940379279375 / 81129638414606681695789005144064) / 2 powi (-47 - 52)) = 5629499534213120"
    by simp
  then have "binary64 (720575940379279375 / 81129638414606681695789005144064) = Fin (of_int 5629499534213120 * 2 powi (-47 - 52))"
    by (intro binary64_eval) (simp_all add: power_int_def power_divide)
  then show ?thesis
    by (simp add: power_int_def power_divide)
qed

lemma binary64_step_28: "binary64 (5 / 562949953421312) = Fin (5 / 562949953421312)"
proof -
  have z: "(5 / 562949953421312 :: real) / 2 powi (-47 - 52) = 5629499534213120"
    by (simp add: power_int_def power_divide)
  have "round_even (5629499534213120) = 5629499534213120"
    by (rule round_even_near) simp
  with z have "round_even ((5 / 562949953421312) / 2 powi (-47 - 52)) = 5629499534213120"
    by simp
  then have "binary64 (5 / 562949953421312) = Fin (of_int 5629499534213120 * 2 powi (-47 - 52))"
    by (intro binary64_eval) (simp_all add: power_int_def power_divide)
  then show ?thesis
    by (simp add: power_int_def power_divide)
qed

lemma binary64_step_29: "binary64 (1 / 109951162777600) = Fin (5764607523034235 / 633825300114114700748351602688)"
proof -
  have z: "(1 / 109951162777600 :: real) / 2 powi (-47 - 52) = 144115188075855872 / 25"
    by (simp add: power_int_def power_divide)
  have "round_even (144115188075855872 / 25) = 5764607523034235"
    by (rule round_even_near) simp
  with z have "round_even ((1 / 109951162777600) / 2 powi (-47 - 52)) = 5764607523034235"
    by simp
  then have "binary64 (1 / 109951162777600) = Fin (of_int 5764607523034235 * 2 powi (-47 - 52))"
    by (intro binary64_eval) (simp_all add: power_int_def power_divide)
  then show ?thesis
    by (simp add: power_int_def power_divide)
qed

lemma binary64_step_30: "binary64 (633825300114120465355874636923 / 633825300114114700748351602688) = Fin (4503599627370537 / 4503599627370496)"
proof -
  have z: "(633825300114120465355874636923 / 633825300114114700748351602688 :: real) / 2 powi (0 - 52) = 633825300114120465355874636923 / 140737488355328"
    by (simp add: power_int_def power_divide)
  have "round_even (633825300114120465355874636923 / 140737488355328) = 4503599627370537"
    by (rule round_even_near) simp
  with z have "round_even ((633825300114120465355874636923 / 633825300114114700748351602688) / 2 powi (0 - 52)) = 4503599627370537"
    by simp
  then have "binary64 (633825300114120465355874636923 / 633825300114114700748351602688) = Fin (of_int 4503599627370537 * 2 powi (0 - 52))"
    by (intro binary64_eval) (simp_all add: power_int_def power_divide)
  then show ?thesis
    by (simp add: power_int_def power_divide)
qed

lemma binary64_step_31: "binary64 (20282409603652039719116695668369 / 20282409603651670423947251286016) = Fin (2251799813685289 / 2251799813685248)"
proof -
  have z: "(20282409603652039719116695668369 / 20282409603651670423947251286016 :: real) / 2 powi (0 - 52) = 20282409603652039719116695668369 / 4503599627370496"
    by (simp add: power_int_def power_divide)
  have "round_even (20282409603652039719116695668369 / 4503599627370496) = 4503599627370578"
    by (rule round_even_near) simp
  with z have "round_even ((20282409603652039719116695668369 / 20282409603651670423947251286016) / 2 powi (0 - 52)) = 4503599627370578"
    by simp
  then have "binary64 (20282409603652039719116695668369 / 20282409603651670423947251286016) = Fin (of_int 4503599627370578 * 2 powi (0 - 52))"
    by (intro binary64_eval) (simp_all add: power_int_def power_divide)
  then show ?thesis
    by (simp add: power_int_def power_divide)
qed

lemma binary64_step_32: "binary64 (12980742146337305690450662868915 / 1427247692705959881058285969449495136382746624) = Fin (1441151880758585 / 158456325028528675187087900672)"
proof -
  have z: "(12980742146337305690450662868915 / 1427247692705959881058285969449495136382746624 :: real) / 2 powi (-47 - 52) = 12980742146337305690450662868915 / 2251799813685248"
    by (simp add: power_int_def power_divide)
  have "round_even (12980742146337305690450662868915 / 2251799813685248) = 5764607523034340"
    by (rule round_even_near) simp
  with z have "round_even ((12980742146337305690450662868915 / 1427247692705959881058285969449495136382746624) / 2 powi (-47 - 52)) = 5764607523034340"
    by simp
  then have "binary64 (12980742146337305690450662868915 / 1427247692705959881058285969449495136382746624) = Fin (of_int 5764607523034340 * 2 powi (-47 - 52))"
    by (intro binary64_eval) (simp_all add: power_int_def power_divide)
  then show ?thesis
    by (simp add: power_int_def power_divide)
qed

lemma binary64_step_33: "binary64 (180143985094823125 / 19807040628566084398385987584) = Fin (5629499534213223 / 618970019642690137449562112)"
proof -
  have z: "(180143985094823125 / 19807040628566084398385987584 :: real) / 2 powi (-37 - 52) = 180143985094823125 / 32"
    by (simp add: power_int_def power_divide)
  have "round_even (180143985094823125 / 32) = 5629499534213223"
    by (rule round_even_near) simp
  with z have "round_even ((180143985094823125 / 19807040628566084398385987584) / 2 powi (-37 - 52)) = 5629499534213223"
    by simp
  then have "binary64 (180143985094823125 / 19807040628566084398385987584) = Fin (of_int 5629499534213223 * 2 powi (-37 - 52))"
    by (intro binary64_eval) (simp_all add: power_int_def power_divide)
  then show ?thesis
    by (simp add: power_int_def power_divide)
qed

lemma binary64_step_34: "binary64 (41 / 2251799813685248) = Fin (41 / 2251799813685248)"
proof -
  have z: "(41 / 2251799813685248 :: real) / 2 powi (-46 - 52) = 5770237022568448"
    by (simp add: power_int_def power_divide)
  have "round_even (5770237022568448) = 5770237022568448"
    by (rule round_even_near) simp
  with z have "round_even ((41 / 2251799813685248) / 2 powi (-46 - 52)) = 5770237022568448"
    by simp
  then have "binary64 (41 / 2251799813685248) = Fin (of_int 5770237022568448 * 2 powi (-46 - 52))"
    by (intro binary64_eval) (simp_all add: power_int_def power_divide)
  then show ?thesis
    by (simp add: power_int_def power_divide)
qed

lemma binary64_step_35: "binary64 (5629499534213223 / 11269994184704) = Fin (8787511468040153 / 17592186044416)"
proof -
  have z: "(5629499534213223 / 11269994184704 :: real) / 2 powi (8 - 52) = 360287970189646272 / 41"
    by (simp add: power_int_def power_divide)
  have "round_even (360287970189646272 / 41) = 8787511468040153"
    by (rule round_even_near) simp
  with z have "round_even ((5629499534213223 / 11269994184704) / 2 powi (8 - 52)) = 8787511468040153"
    by simp
  then have "binary64 (5629499534213223 / 11269994184704) = Fin (of_int 8787511468040153 * 2 powi (8 - 52))"
    by (intro binary64_eval) (simp_all add: power_int_def power_divide)
  then show ?thesis
    by (simp add: power_int_def power_divide)
qed

lemma binary64_step_36: "binary64 (720575940379279375 / 79228162514264337593543950336) = Fin (5 / 549755813888)"
proof -
  have z: "(720575940379279375 / 79228162514264337593543950336 :: real) / 2 powi (-37 - 52) = 720575940379279375 / 128"
    by (simp add: power_int_def power_divide)
  have "round_even (720575940379279375 / 128) = 5629499534213120"
    by (rule round_even_near) simp
  with z have "round_even ((720575940379279375 / 79228162514264337593543950336) / 2 powi (-37 - 52)) = 5629499534213120"
    by simp
  then have "binary64 (720575940379279375 / 79228162514264337593543950336) = Fin (of_int 5629499534213120 * 2 powi (-37 - 52))"
    by (intro binary64_eval) (simp_all add: power_int_def power_divide)
  then show ?thesis
    by (simp add: power_int_def power_divide)
qed

lemma binary64_step_37: "binary64 (8787511468039993 / 17592186044416) = Fin (8787511468039993 / 17592186044416)"
proof -
  have z: "(8787511468039993 / 17592186044416 :: real) / 2 powi (8 - 52) = 8787511468039993"
    by (simp add: power_int_def power_divide)
  have "round_even (8787511468039993) = 8787511468039993"
    by (rule round_even_near) simp
  with z have "round_even ((8787511468039993 / 17592186044416) / 2 powi (8 - 52)) = 8787511468039993"
    by simp
  then have "binary64 (8787511468039993 / 17592186044416) = Fin (of_int 8787511468039993 * 2 powi (8 - 52))"
    by (intro binary64_eval) (simp_all add: power_int_def power_divide)
  then show ?thesis
    by (simp add: power_int_def power_divide)
qed

lemma binary64_step_38: "binary64 (8804674576376007 / 17592186044416) = Fin (8804674576376007 / 17592186044416)"
proof -
  have z: "(8804674576376007 / 17592186044416 :: real) / 2 powi (8 - 52) = 8804674576376007"
    by (simp add: power_int_def power_divide)
  have "round_even (8804674576376007) = 8804674576376007"
    by (rule round_even_near) simp
  with z have "round_even ((8804674576376007 / 17592186044416) / 2 powi (8 - 52)) = 8804674576376007"
    by simp
  then have "binary64 (8804674576376007 / 17592186044416) = Fin (of_int 8804674576376007 * 2 powi (8 - 52))"
    by (intro binary64_eval) (simp_all add: power_int_def power_divide)
  then show ?thesis
    by (simp add: power_int_def power_divide)
qed

lemma binary64_step_39: "binary64 (5 / 549755813888) = Fin (5 / 549755813888)"
proof -
  have z: "(5 / 549755813888 :: real) / 2 powi (-37 - 52) = 5629499534213120"
    by (simp add: power_int_def power_divide)
  have "round_even (5629499534213120) = 5629499534213120"
    by (rule round_even_near) simp
  with z have "round_even ((5 / 549755813888) / 2 powi (-37 - 52)) = 5629499534213120"
    by simp
  then have "binary64 (5 / 549755813888) = Fin (of_int 5629499534213120 * 2 powi (-37 - 52))"
    by (intro binary64_eval) (simp_all add: power_int_def power_divide)
  then show ?thesis
    by (simp add: power_int_def power_divide)
qed

lemma binary64_step_40: "binary64 (50755493300845396063022893599645 / 11150372599265311570767859136324180752990208) = Fin (5634991728880645 / 1237940039285380274899124224)"
proof -
  have z: "(50755493300845396063022893599645 / 11150372599265311570767859136324180752990208 :: real) / 2 powi (-38 - 52) = 50755493300845396063022893599645 / 9007199254740992"
    by (simp add: power_int_def power_divide)
  have "round_even (50755493300845396063022893599645 / 9007199254740992) = 5634991728880645"
    by (rule round_even_near) simp
  with z have "round_even ((50755493300845396063022893599645 / 11150372599265311570767859136324180752990208) / 2 powi (-38 - 52)) = 5634991728880645"
    by simp
  then have "binary64 (50755493300845396063022893599645 / 11150372599265311570767859136324180752990208) = Fin (of_int 5634991728880645 * 2 powi (-38 - 52))"
    by (intro binary64_eval) (simp_all add: power_int_def power_divide)
  then show ?thesis
    by (simp add: power_int_def power_divide)
qed

lemma binary64_step_41: "binary64 (16893990797306885 / 1237940039285380274899124224) = Fin (4223497699326721 / 309485009821345068724781056)"
proof -
  have z: "(16893990797306885 / 1237940039285380274899124224 :: real) / 2 powi (-37 - 52) = 16893990797306885 / 2"
    by (simp add: power_int_def power_divide)
  have "round_even (16893990797306885 / 2) = 8446995398653442"
    using round_even_tie [of "16893990797306885 / 2" 8446995398653442] by simp
  with z have "round_even ((16893990797306885 / 1237940039285380274899124224) / 2 powi (-37 - 52)) = 8446995398653442"
    by simp
  then have "binary64 (16893990797306885 / 1237940039285380274899124224) = Fin (of_int 8446995398653442 * 2 powi (-37 - 52))"
    by (intro binary64_eval) (simp_all add: power_int_def power_divide)
  then show ?thesis
    by (simp add: power_int_def power_divide)
qed

lemma binary64_step_42: "binary64 (1000) = Fin 1000"
proof -
  have z: "(1000 :: real) / 2 powi (9 - 52) = 8796093022208000"
    by (simp add: power_int_def power_divide)
  have "round_even (8796093022208000) = 8796093022208000"
    by (rule round_even_near) simp
  with z have "round_even ((1000) / 2 powi (9 - 52)) = 8796093022208000"
    by simp
  then have "binary64 (1000) = Fin (of_int 8796093022208000 * 2 powi (9 - 52))"
    by (intro binary64_eval) (simp_all add: power_int_def power_divide)
  then show ?thesis
    by (simp add: power_int_def power_divide)
qed

lemma binary64_step_43: "binary64 (8787511468040153 / 8796093022208) = Fin (8787511468040153 / 8796093022208)"
proof -
  have z: "(8787511468040153 / 8796093022208 :: real) / 2 powi (9 - 52) = 8787511468040153"
    by (simp add: power_int_def power_divide)
  have "round_even (8787511468040153) = 8787511468040153"
    by (rule round_even_near) simp
  with z have "round_even ((8787511468040153 / 8796093022208) / 2 powi (9 - 52)) = 8787511468040153"
    by simp
  then have "binary64 (8787511468040153 / 8796093022208) = Fin (of_int 8787511468040153 * 2 powi (9 - 52))"
    by (intro binary64_eval) (simp_all add: power_int_def power_divide)
  then show ?thesis
    by (simp add: power_int_def power_divide)
qed

lemma binary64_step_44: "binary64 (309485009821349292222480382721 / 309485009821345068724781056) = Fin (1099511627776015 / 1099511627776)"
proof -
  have z: "(309485009821349292222480382721 / 309485009821345068724781056 :: real) / 2 powi (9 - 52) = 309485009821349292222480382721 / 35184372088832"
    by (simp add: power_int_def power_divide)
  have "round_even (309485009821349292222480382721 / 35184372088832) = 8796093022208120"
    by (rule round_even_near) simp
  with z have "round_even ((309485009821349292222480382721 / 309485009821345068724781056) / 2 powi (9 - 52)) = 8796093022208120"
    by simp
  then have "binary64 (309485009821349292222480382721 / 309485009821345068724781056) = Fin (of_int 8796093022208120 * 2 powi (9 - 52))"
    by (intro binary64_eval) (simp_all add: power_int_def power_divide)
  then show ?thesis
    by (simp add: power_int_def power_divide)
qed

lemma binary64_step_45: "binary64 (100 / 3) = Fin (4691249611844267 / 140737488355328)"
proof -
  have z: "(100 / 3 :: real) / 2 powi (5 - 52) = 14073748835532800 / 3"
    by (simp add: power_int_def power_divide)
  have "round_even (14073748835532800 / 3) = 4691249611844267"
    by (rule round_even_near) simp
  with z have "round_even ((100 / 3) / 2 powi (5 - 52)) = 4691249611844267"
    by simp
  then have "binary64 (100 / 3) = Fin (of_int 4691249611844267 * 2 powi (5 - 52))"
    by (intro binary64_eval) (simp_all add: power_int_def power_divide)
  then show ?thesis
    by (simp add: power_int_def power_divide)
qed

lemma binary64_step_46: "binary64 (9382499223688533 / 140737488355328) = Fin (2345624805922133 / 35184372088832)"
proof -
  have z: "(9382499223688533 / 140737488355328 :: real) / 2 powi (6 - 52) = 9382499223688533 / 2"
    by (simp add: power_int_def power_divide)
  have "round_even (9382499223688533 / 2) = 4691249611844266"
    using round_even_tie [of "9382499223688533 / 2" 4691249611844266] by simp
  with z have "round_even ((9382499223688533 / 140737488355328) / 2 powi (6 - 52)) = 4691249611844266"
    by simp
  then have "binary64 (9382499223688533 / 140737488355328) = Fin (of_int 4691249611844266 * 2 powi (6 - 52))"
    by (intro binary64_eval) (simp_all add: power_int_def power_divide)
  then show ?thesis
    by (simp add: power_int_def power_divide)
qed

lemma binary64_step_47: "binary64 (4691249611844265 / 140737488355328) = Fin (4691249611844265 / 140737488355328)"
proof -
  have z: "(4691249611844265 / 140737488355328 :: real) / 2 powi (5 - 52) = 4691249611844265"
    by (simp add: power_int_def power_divide)
  have "round_even (4691249611844265) = 4691249611844265"
    by (rule round_even_near) simp
  with z have "round_even ((4691249611844265 / 140737488355328) / 2 powi (5 - 52)) = 4691249611844265"
    by simp
  then have "binary64 (4691249611844265 / 140737488355328) = Fin (of_int 4691249611844265 * 2 powi (5 - 52))"
    by (intro binary64_eval) (simp_all add: power_int_def power_divide)
  then show ?thesis
    by (simp add: power_int_def power_divide)
qed

lemma binary64_step_48: "binary64 (14073748835532801 / 140737488355328) = Fin 100"
proof -
  have z: "(14073748835532801 / 140737488355328 :: real) / 2 powi (6 - 52) = 14073748835532801 / 2"
    by (simp add: power_int_def power_divide)
  have "round_even (14073748835532801 / 2) = 7036874417766400"
    using round_even_tie [of "14073748835532801 / 2" 7036874417766400] by simp
  with z have "round_even ((14073748835532801 / 140737488355328) / 2 powi (6 - 52)) = 7036874417766400"
    by simp
  then have "binary64 (14073748835532801 / 140737488355328) = Fin (of_int 7036874417766400 * 2 powi (6 - 52))"
    by (intro binary64_eval) (simp_all add: power_int_def power_divide)
  then show ?thesis
    by (simp add: power_int_def power_divide)
qed

lemma binary64_step_49: "binary64 (12000) = Fin 12000"
proof -
  have z: "(12000 :: real) / 2 powi (13 - 52) = 6597069766656000"
    by (simp add: power_int_def power_divide)
  have "round_even (6597069766656000) = 6597069766656000"
    by (rule round_even_near) simp
  with z have "round_even ((12000) / 2 powi (13 - 52)) = 6597069766656000"
    by simp
  then have "binary64 (12000) = Fin (of_int 6597069766656000 * 2 powi (13 - 52))"
    by (intro binary64_eval) (simp_all add: power_int_def power_divide)
  then show ?thesis
    by (simp add: power_int_def power_divide)
qed

lemma binary64_step_50: "binary64 (108000) = Fin 108000"
proof -
  have z: "(108000 :: real) / 2 powi (16 - 52) = 7421703487488000"
    by (simp add: power_int_def power_divide)
  have "round_even (7421703487488000) = 7421703487488000"
    by (rule round_even_near) simp
  with z have "round_even ((108000) / 2 powi (16 - 52)) = 7421703487488000"
    by simp
  then have "binary64 (108000) = Fin (of_int 7421703487488000 * 2 powi (16 - 52))"
    by (intro binary64_eval) (simp_all add: power_int_def power_divide)
  then show ?thesis
    by (simp add: power_int_def power_divide)
qed

lemma binary64_step_51: "binary64 (96000) = Fin 96000"
proof -
  have z: "(96000 :: real) / 2 powi (16 - 52) = 6597069766656000"
    by (simp add: power_int_def power_divide)
  have "round_even (6597069766656000) = 6597069766656000"
    by (rule round_even_near) simp
  with z have "round_even ((96000) / 2 powi (16 - 52)) = 6597069766656000"
    by simp
  then have "binary64 (96000) = Fin (of_int 6597069766656000 * 2 powi (16 - 52))"
    by (intro binary64_eval) (simp_all add: power_int_def power_divide)
  then show ?thesis
    by (simp add: power_int_def power_divide)
qed

lemma binary64_step_52: "binary64 (84000) = Fin 84000"
proof -
  have z: "(84000 :: real) / 2 powi (16 - 52) = 5772436045824000"
    by (simp add: power_int_def power_divide)
  have "round_even (5772436045824000) = 5772436045824000"
    by (rule round_even_near) simp
  with z have "round_even ((84000) / 2 powi (16 - 52)) = 5772436045824000"
    by simp
  then have "binary64 (84000) = Fin (of_int 5772436045824000 * 2 powi (16 - 52))"
    by (intro binary64_eval) (simp_all add: power_int_def power_divide)
  then show ?thesis
    by (simp add: power_int_def power_divide)
qed

lemma binary64_step_53: "binary64 (72000) = Fin 72000"
proof -
  have z: "(72000 :: real) / 2 powi (16 - 52) = 4947802324992000"
    by (simp add: power_int_def power_divide)
  have "round_even (4947802324992000) = 4947802324992000"
    by (rule round_even_near) simp
  with z have "round_even ((72000) / 2 powi (16 - 52)) = 4947802324992000"
    by simp
  then have "binary64 (72000) = Fin (of_int 4947802324992000 * 2 powi (16 - 52))"
    by (intro binary64_eval) (simp_all add: power_int_def power_divide)
  then show ?thesis
    by (simp add: power_int_def power_divide)
qed

lemma binary64_step_54: "binary64 (60000) = Fin 60000"
proof -
  have z: "(60000 :: real) / 2 powi (15 - 52) = 8246337208320000"
    by (simp add: power_int_def power_divide)
  have "round_even (8246337208320000) = 8246337208320000"
    by (rule round_even_near) simp
  with z have "round_even ((60000) / 2 powi (15 - 52)) = 8246337208320000"
    by simp
  then have "binary64 (60000) = Fin (of_int 8246337208320000 * 2 powi (15 - 52))"
    by (intro binary64_eval) (simp_all add: power_int_def power_divide)
  then show ?thesis
    by (simp add: power_int_def power_divide)
qed

lemma binary64_step_55: "binary64 (48000) = Fin 48000"
proof -
  have z: "(48000 :: real) / 2 powi (15 - 52) = 6597069766656000"
    by (simp add: power_int_def power_divide)
  have "round_even (6597069766656000) = 6597069766656000"
    by (rule round_even_near) simp
  with z have "round_even ((48000) / 2 powi (15 - 52)) = 6597069766656000"
    by simp
  then have "binary64 (48000) = Fin (of_int 6597069766656000 * 2 powi (15 - 52))"
    by (intro binary64_eval) (simp_all add: power_int_def power_divide)
  then show ?thesis
    by (simp add: power_int_def power_divide)
qed

lemma binary64_step_56: "binary64 (36000) = Fin 36000"
proof -
  have z: "(36000 :: real) / 2 powi (15 - 52) = 4947802324992000"
    by (simp add: power_int_def power_divide)
  have "round_even (4947802324992000) = 4947802324992000"
    by (rule round_even_near) simp
  with z have "round_even ((36000) / 2 powi (15 - 52)) = 4947802324992000"
    by simp
  then have "binary64 (36000) = Fin (of_int 4947802324992000 * 2 powi (15 - 52))"
    by (intro binary64_eval) (simp_all add: power_int_def power_divide)
  then show ?thesis
    by (simp add: power_int_def power_divide)
qed

lemma binary64_step_57: "binary64 (24000) = Fin 24000"
proof -
  have z: "(24000 :: real) / 2 powi (14 - 52) = 6597069766656000"
    by (simp add: power_int_def power_divide)
  have "round_even (6597069766656000) = 6597069766656000"
    by (rule round_even_near) simp
  with z have "round_even ((24000) / 2 powi (14 - 52)) = 6597069766656000"
    by simp
  then have "binary64 (24000) = Fin (of_int 6597069766656000 * 2 powi (14 - 52))"
    by (intro binary64_eval) (simp_all add: power_int_def power_divide)
  then show ?thesis
    by (simp add: power_int_def power_divide)
qed

lemma binary64_step_58: "binary64 (120000) = Fin 120000"
proof -
  have z: "(120000 :: real) / 2 powi (16 - 52) = 8246337208320000"
    by (simp add: power_int_def power_divide)
  have "round_even (8246337208320000) = 8246337208320000"
    by (rule round_even_near) simp
  with z have "round_even ((120000) / 2 powi (16 - 52)) = 8246337208320000"
    by simp
  then have "binary64 (120000) = Fin (of_int 8246337208320000 * 2 powi (16 - 52))"
    by (intro binary64_eval) (simp_all add: power_int_def power_divide)
  then show ?thesis
    by (simp add: power_int_def power_divide)
qed

lemma binary64_step_59: "binary64 (3) = Fin 3"
proof -
  have z: "(3 :: real) / 2 powi (1 - 52) = 6755399441055744"
    by (simp add: power_int_def power_divide)
  have "round_even (6755399441055744) = 6755399441055744"
    by (rule round_even_near) simp
  with z have "round_even ((3) / 2 powi (1 - 52)) = 6755399441055744"
    by simp
  then have "binary64 (3) = Fin (of_int 6755399441055744 * 2 powi (1 - 52))"
    by (intro binary64_eval) (simp_all add: power_int_def power_divide)
  then show ?thesis
    by (simp add: power_int_def power_divide)
qed

lemma binary64_step_60: "binary64 (4) = Fin 4"
proof -
  have z: "(4 :: real) / 2 powi (2 - 52) = 4503599627370496"
    by (simp add: power_int_def power_divide)
  have "round_even (4503599627370496) = 4503599627370496"
    by (rule round_even_near) simp
  with z have "round_even ((4) / 2 powi (2 - 52)) = 4503599627370496"
    by simp
  then have "binary64 (4) = Fin (of_int 4503599627370496 * 2 powi (2 - 52))"
    by (intro binary64_eval) (simp_all add: power_int_def power_divide)
  then show ?thesis
    by (simp add: power_int_def power_divide)
qed

lemma binary64_step_61: "binary64 (81 / 64) = Fin (81 / 64)"
proof -
  have z: "(81 / 64 :: real) / 2 powi (0 - 52) = 5699868278390784"
    by (simp add: power_int_def power_divide)
  have "round_even (5699868278390784) = 5699868278390784"
    by (rule round_even_near) simp
  with z have "round_even ((81 / 64) / 2 powi (0 - 52)) = 5699868278390784"
    by simp
  then have "binary64 (81 / 64) = Fin (of_int 5699868278390784 * 2 powi (0 - 52))"
    by (intro binary64_eval) (simp_all add: power_int_def power_divide)
  then show ?thesis
    by (simp add: power_int_def power_divide)
qed

lemma binary64_step_62: "binary64 (81 / 512) = Fin (81 / 512)"
proof -
  have z: "(81 / 512 :: real) / 2 powi (-3 - 52) = 5699868278390784"
    by (simp add: power_int_def power_divide)
  have "round_even (5699868278390784) = 5699868278390784"
    by (rule round_even_near) simp
  with z have "round_even ((81 / 512) / 2 powi (-3 - 52)) = 5699868278390784"
    by simp
  then have "binary64 (81 / 512) = Fin (of_int 5699868278390784 * 2 powi (-3 - 52))"
    by (intro binary64_eval) (simp_all add: power_int_def power_divide)
  then show ?thesis
    by (simp add: power_int_def power_divide)
qed

lemma binary64_step_63: "binary64 (10125 / 64) = Fin (10125 / 64)"
proof -
  have z: "(10125 / 64 :: real) / 2 powi (7 - 52) = 5566277615616000"
    by (simp add: power_int_def power_divide)
  have "round_even (5566277615616000) = 5566277615616000"
    by (rule round_even_near) simp
  with z have "round_even ((10125 / 64) / 2 powi (7 - 52)) = 5566277615616000"
    by simp
  then have "binary64 (10125 / 64) = Fin (of_int 5566277615616000 * 2 powi (7 - 52))"
    by (intro binary64_eval) (simp_all add: power_int_def power_divide)
  then show ?thesis
    by (simp add: power_int_def power_divide)
qed

lemma binary64_step_64: "binary64 (17 / 64) = Fin (17 / 64)"
proof -
  have z: "(17 / 64 :: real) / 2 powi (-2 - 52) = 4785074604081152"
    by (simp add: power_int_def power_divide)
  have "round_even (4785074604081152) = 4785074604081152"
    by (rule round_even_near) simp
  with z have "round_even ((17 / 64) / 2 powi (-2 - 52)) = 4785074604081152"
    by simp
  then have "binary64 (17 / 64) = Fin (of_int 4785074604081152 * 2 powi (-2 - 52))"
    by (intro binary64_eval) (simp_all add: power_int_def power_divide)
  then show ?thesis
    by (simp add: power_int_def power_divide)
qed

lemma binary64_step_65: "binary64 (10125 / 17) = Fin (5238849520579765 / 8796093022208)"
proof -
  have z: "(10125 / 17 :: real) / 2 powi (9 - 52) = 89060441849856000 / 17"
    by (simp add: power_int_def power_divide)
  have "round_even (89060441849856000 / 17) = 5238849520579765"
    by (rule round_even_near) simp
  with z have "round_even ((10125 / 17) / 2 powi (9 - 52)) = 5238849520579765"
    by simp
  then have "binary64 (10125 / 17) = Fin (of_int 5238849520579765 * 2 powi (9 - 52))"
    by (intro binary64_eval) (simp_all add: power_int_def power_divide)
  then show ?thesis
    by (simp add: power_int_def power_divide)
qed

lemma binary64_step_66: "binary64 (4139337892803765 / 8796093022208) = Fin (4139337892803765 / 8796093022208)"
proof -
  have z: "(4139337892803765 / 8796093022208 :: real) / 2 powi (8 - 52) = 8278675785607530"
    by (simp add: power_int_def power_divide)
  have "round_even (8278675785607530) = 8278675785607530"
    by (rule round_even_near) simp
  with z have "round_even ((4139337892803765 / 8796093022208) / 2 powi (8 - 52)) = 8278675785607530"
    by simp
  then have "binary64 (4139337892803765 / 8796093022208) = Fin (of_int 8278675785607530 * 2 powi (8 - 52))"
    by (intro binary64_eval) (simp_all add: power_int_def power_divide)
  then show ?thesis
    by (simp add: power_int_def power_divide)
qed

lemma binary64_step_67: "binary64 (4656755129404235 / 8796093022208) = Fin (4656755129404235 / 8796093022208)"
proof -
  have z: "(4656755129404235 / 8796093022208 :: real) / 2 powi (9 - 52) = 4656755129404235"
    by (simp add: power_int_def power_divide)
  have "round_even (4656755129404235) = 4656755129404235"
    by (rule round_even_near) simp
  with z have "round_even ((4656755129404235 / 8796093022208) / 2 powi (9 - 52)) = 4656755129404235"
    by simp
  then have "binary64 (4656755129404235 / 8796093022208) = Fin (of_int 4656755129404235 * 2 powi (9 - 52))"
    by (intro binary64_eval) (simp_all add: power_int_def power_divide)
  then show ?thesis
    by (simp add: power_int_def power_divide)
qed

lemma binary64_step_68: "binary64 (4656755129404235 / 70368744177664) = Fin (4656755129404235 / 70368744177664)"
proof -
  have z: "(4656755129404235 / 70368744177664 :: real) / 2 powi (6 - 52) = 4656755129404235"
    by (simp add: power_int_def power_divide)
  have "round_even (4656755129404235) = 4656755129404235"
    by (rule round_even_near) simp
  with z have "round_even ((4656755129404235 / 70368744177664) / 2 powi (6 - 52)) = 4656755129404235"
    by simp
  then have "binary64 (4656755129404235 / 70368744177664) = Fin (of_int 4656755129404235 * 2 powi (6 - 52))"
    by (intro binary64_eval) (simp_all add: power_int_def power_divide)
  then show ?thesis
    by (simp add: power_int_def power_divide)
qed

lemma binary64_step_69: "binary64 (13452848151612235 / 70368744177664) = Fin (3363212037903059 / 17592186044416)"
proof -
  have z: "(13452848151612235 / 70368744177664 :: real) / 2 powi (7 - 52) = 13452848151612235 / 2"
    by (simp add: power_int_def power_divide)
  have "round_even (13452848151612235 / 2) = 6726424075806118"
    using round_even_tie [of "13452848151612235 / 2" 6726424075806117] by simp
  with z have "round_even ((13452848151612235 / 70368744177664) / 2 powi (7 - 52)) = 6726424075806118"
    by simp
  then have "binary64 (13452848151612235 / 70368744177664) = Fin (of_int 6726424075806118 * 2 powi (7 - 52))"
    by (intro binary64_eval) (simp_all add: power_int_def power_divide)
  then show ?thesis
    by (simp add: power_int_def power_divide)
qed

lemma binary64_step_70: "binary64 (5238849520579765 / 4398046511104) = Fin (5238849520579765 / 4398046511104)"
proof -
  have z: "(5238849520579765 / 4398046511104 :: real) / 2 powi (10 - 52) = 5238849520579765"
    by (simp add: power_int_def power_divide)
  have "round_even (5238849520579765) = 5238849520579765"
    by (rule round_even_near) simp
  with z have "round_even ((5238849520579765 / 4398046511104) / 2 powi (10 - 52)) = 5238849520579765"
    by simp
  then have "binary64 (5238849520579765 / 4398046511104) = Fin (of_int 5238849520579765 * 2 powi (10 - 52))"
    by (intro binary64_eval) (simp_all add: power_int_def power_divide)
  then show ?thesis
    by (simp add: power_int_def power_divide)
qed

lemma binary64_step_71: "binary64 (37254041035233885 / 70368744177664) = Fin (1164188782351059 / 2199023255552)"
proof -
  have z: "(37254041035233885 / 70368744177664 :: real) / 2 powi (9 - 52) = 37254041035233885 / 8"
    by (simp add: power_int_def power_divide)
  have "round_even (37254041035233885 / 8) = 4656755129404236"
    by (rule round_even_near) simp
  with z have "round_even ((37254041035233885 / 70368744177664) / 2 powi (9 - 52)) = 4656755129404236"
    by simp
  then have "binary64 (37254041035233885 / 70368744177664) = Fin (of_int 4656755129404236 * 2 powi (9 - 52))"
    by (intro binary64_eval) (simp_all add: power_int_def power_divide)
  then show ?thesis
    by (simp add: power_int_def power_divide)
qed

lemma binary64_step_72: "binary64 (100) = Fin 100"
proof -
  have z: "(100 :: real) / 2 powi (6 - 52) = 7036874417766400"
    by (simp add: power_int_def power_divide)
  have "round_even (7036874417766400) = 7036874417766400"
    by (rule round_even_near) simp
  with z have "round_even ((100) / 2 powi (6 - 52)) = 7036874417766400"
    by simp
  then have "binary64 (100) = Fin (of_int 7036874417766400 * 2 powi (6 - 52))"
    by (intro binary64_eval) (simp_all add: power_int_def power_divide)
  then show ?thesis
    by (simp add: power_int_def power_divide)
qed

lemmas binary64_more_steps = binary64_step_21 binary64_step_22 binary64_step_23 binary64_step_24 binary64_step_25 binary64_step_26 binary64_step_27 binary64_step_28 binary64_step_29 binary64_step_30 binary64_step_31 binary64_step_32 binary64_step_33 binary64_step_34 binary64_step_35 binary64_step_36 binary64_step_37 binary64_step_38 binary64_step_39 binary64_step_40 binary64_step_41 binary64_step_42 binary64_step_43 binary64_step_44 binary64_step_45 binary64_step_46 binary64_step_47 binary64_step_48 binary64_step_49 binary64_step_50 binary64_step_51 binary64_step_52 binary64_step_53 binary64_step_54 binary64_step_55 binary64_step_56 binary64_step_57 binary64_step_58 binary64_step_59 binary64_step_60 binary64_step_61 binary64_step_62 binary64_step_63 binary64_step_64 binary64_step_65 binary64_step_66 binary64_step_67 binary64_step_68 binary64_step_69 binary64_step_70 binary64_step_71 binary64_step_72

lemma run_binary64_1000_tiny_3:
  "computeMortgage_rounded binary64 \<lparr>loanAmount = 1000, annualRate = 1 / 1125899906842624, years = 3\<rparr> =
    \<lparr>result.payment = PInf,
     schedule =
       [\<lparr>year = 1, row.payment = PInf, row.interest = Fin (5 / 562949953421312),
         row.principal = PInf, endingBalance = Fin 0\<rparr>,
        \<lparr>year = 2, row.payment = PInf, row.interest = Fin 0,
         row.principal = PInf, endingBalance = Fin 0\<rparr>,
        \<lparr>year = 3, row.payment = PInf, row.interest = Fin 0,
         row.principal = Fin 0, endingBalance = Fin 0\<rparr>],
     totals = \<lparr>totals.payment = PInf, totals.interest = Fin (5 / 562949953421312),
               totals.principal = PInf\<rparr>\<rparr>"
  by (simp add: Let_def computeMortgage_rounded_def Math_round_def minus_jsnum_def loop_rate_rounded.simps
      eval_nat_numeral binary64_more_steps)




lemma run_binary64_1000_12_5_2:
  "computeMortgage_rounded binary64 \<lparr>loanAmount = 1000, annualRate = 25 / 2, years = 2\<rparr> =
    \<lparr>result.payment = Fin (5238849520579765 / 8796093022208),
     schedule =
       [\<lparr>year = 1, row.payment = Fin (5238849520579765 / 8796093022208), row.interest = Fin 125,
         row.principal = Fin (4139337892803765 / 8796093022208), endingBalance = Fin (4656755129404235 / 8796093022208)\<rparr>,
        \<lparr>year = 2, row.payment = Fin (5238849520579765 / 8796093022208), row.interest = Fin (4656755129404235 / 70368744177664),
         row.principal = Fin (4656755129404235 / 8796093022208), endingBalance = Fin 0\<rparr>],
     totals = \<lparr>totals.payment = Fin (5238849520579765 / 4398046511104), totals.interest = Fin (3363212037903059 / 17592186044416),
               totals.principal = Fin 1000\<rparr>\<rparr>"
  by (simp add: Let_def computeMortgage_rounded_def Math_round_def minus_jsnum_def loop_rate_rounded.simps
      eval_nat_numeral binary64_steps binary64_more_steps)

lemma run_exact_1000_12_5_3:
  "computeMortgage_rounded Fin \<lparr>loanAmount = 1000, annualRate = 25 / 2, years = 3\<rparr> =
    \<lparr>result.payment = Fin (91125 / 217),
     schedule =
       [\<lparr>year = 1, row.payment = Fin (91125 / 217), row.interest = Fin 125,
         row.principal = Fin (64000 / 217), endingBalance = Fin (153000 / 217)\<rparr>,
        \<lparr>year = 2, row.payment = Fin (91125 / 217), row.interest = Fin (19125 / 217),
         row.principal = Fin (72000 / 217), endingBalance = Fin (81000 / 217)\<rparr>,
        \<lparr>year = 3, row.payment = Fin (91125 / 217), row.interest = Fin (10125 / 217),
         row.principal = Fin (81000 / 217), endingBalance = Fin 0\<rparr>],
     totals = \<lparr>totals.payment = Fin (273375 / 217), totals.interest = Fin (56375 / 217),
               totals.principal = Fin 1000\<rparr>\<rparr>"
  unfolding computeMortgage_rounded_Fin
  by (simp add: Let_def computeMortgage_def Math_round_def Math_pow_def loop_rate.simps
      eval_nat_numeral)

lemma payment_1000_300_512:
  "result.payment (computeMortgage_rounded binary64
     \<lparr>loanAmount = 1000, annualRate = 300, years = 512\<rparr>) = NaN"
proof -
  have "(2::real) powi 1024 \<le> 4 ^ 512"
    by (simp add: power_int_def)
  then have g: "binary64 (4 ^ 512) = PInf" by (rule binary64_overflow)
  have n: "Math_round 512 = 512" by (simp add: Math_round_def)
  let ?inp = "\<lparr>loanAmount = 1000, annualRate = 300, years = 512\<rparr>"
  have r: "\<not> js_eq (rounded binary64 (Fin (annualRate ?inp) / Fin 100)) (Fin 0)"
    by (simp add: binary64_more_steps)
  from computeMortgage_rounded_rate(1) [OF r] show ?thesis
    by (simp add: n binary64_more_steps g minus_jsnum_def del: power_numeral)
qed











section \<open>Rounding to a double is monotone and idempotent\<close>

lemma binary64_nearest:
  "binary64 x =
     (if 2 powi 1024 \<le> \<bar>nearest64 x\<bar> then (if 0 < x then PInf else NInf)
      else Fin (nearest64 x))"
  by (simp add: binary64_def nearest64_def Let_def)

lemma exponent_from_range:
  "e0 \<le> exponent_from k e0 x \<and> exponent_from k e0 x \<le> e0 + int k"
proof (induction k arbitrary: e0)
  case 0
  show ?case by simp
next
  case (Suc k)
  from Suc [of "e0 + 1"] show ?case by auto
qed

lemma exponent_from_lower:
  "e0 < exponent_from k e0 x \<Longrightarrow> 2 powi (exponent_from k e0 x) \<le> x"
proof (induction k arbitrary: e0)
  case 0
  then show ?case by simp
next
  case (Suc k)
  show ?case
  proof (cases "2 powi (e0 + 1) \<le> x")
    case True
    then have eq: "exponent_from (Suc k) e0 x = exponent_from k (e0 + 1) x" by simp
    show ?thesis
    proof (cases "e0 + 1 < exponent_from k (e0 + 1) x")
      case True
      then show ?thesis unfolding eq by (rule Suc.IH)
    next
      case False
      with exponent_from_range [of "e0 + 1" k x]
      have "exponent_from k (e0 + 1) x = e0 + 1" by simp
      with \<open>2 powi (e0 + 1) \<le> x\<close> show ?thesis unfolding eq by simp
    qed
  next
    case False
    with Suc.prems show ?thesis by simp
  qed
qed

lemma exponent_from_upper:
  "exponent_from k e0 x < e0 + int k \<Longrightarrow> x < 2 powi (exponent_from k e0 x + 1)"
proof (induction k arbitrary: e0)
  case 0
  then show ?case by simp
next
  case (Suc k)
  show ?case
  proof (cases "2 powi (e0 + 1) \<le> x")
    case True
    then have eq: "exponent_from (Suc k) e0 x = exponent_from k (e0 + 1) x" by simp
    from Suc.prems have "exponent_from k (e0 + 1) x < e0 + 1 + int k"
      unfolding eq by simp
    then show ?thesis unfolding eq by (rule Suc.IH)
  next
    case False
    then show ?thesis by simp
  qed
qed

lemma exponent_from_mono:
  "x \<le> y \<Longrightarrow> exponent_from k e0 x \<le> exponent_from k e0 y"
proof (induction k arbitrary: e0)
  case 0
  show ?case by simp
next
  case (Suc k)
  show ?case
  proof (cases "2 powi (e0 + 1) \<le> x")
    case True
    with Suc.prems have "2 powi (e0 + 1) \<le> y" by simp
    with True Suc.IH [OF Suc.prems, of "e0 + 1"] show ?thesis by simp
  next
    case False
    then have "exponent_from (Suc k) e0 x = e0" by simp
    with exponent_from_range [of e0 "Suc k" y] show ?thesis by simp
  qed
qed

lemma exponent64_range: "- 1022 \<le> exponent64 x" "exponent64 x \<le> 1024"
  using exponent_from_range [of "- 1022" 2046 "\<bar>x\<bar>"] by (simp_all add: exponent64_def)

lemma exponent64_lower: "- 1022 < exponent64 x \<Longrightarrow> 2 powi (exponent64 x) \<le> \<bar>x\<bar>"
  unfolding exponent64_def by (rule exponent_from_lower)

lemma exponent64_upper: "exponent64 x < 1024 \<Longrightarrow> \<bar>x\<bar> < 2 powi (exponent64 x + 1)"
  unfolding exponent64_def using exponent_from_upper [of 2046 "- 1022" "\<bar>x\<bar>"] by simp

lemma exponent64_mono: "\<bar>x\<bar> \<le> \<bar>y\<bar> \<Longrightarrow> exponent64 x \<le> exponent64 y"
  unfolding exponent64_def by (rule exponent_from_mono)

lemma exponent64_minus [simp]: "exponent64 (- x) = exponent64 x"
  by (simp add: exponent64_def)

lemma round_even_int [simp]: "round_even (of_int m) = m"
  by (simp add: round_even_def)

lemma round_even_le: "z \<le> of_int m \<Longrightarrow> round_even z \<le> m"
proof -
  assume z: "z \<le> of_int m"
  then have f: "\<lfloor>z\<rfloor> \<le> m" by (simp add: floor_le_iff)
  show ?thesis
  proof (cases "\<lfloor>z\<rfloor> = m")
    case True
    with z have "z = of_int m" by linarith
    then show ?thesis by simp
  next
    case False
    with f have "\<lfloor>z\<rfloor> + 1 \<le> m" by simp
    then show ?thesis by (simp add: round_even_def Let_def)
  qed
qed

lemma round_even_mono: "z \<le> z' \<Longrightarrow> round_even z \<le> round_even z'"
proof -
  assume zz: "z \<le> z'"
  then have f: "\<lfloor>z\<rfloor> \<le> \<lfloor>z'\<rfloor>" by (rule floor_mono)
  show ?thesis
  proof (cases "\<lfloor>z\<rfloor> = \<lfloor>z'\<rfloor>")
    case True
    with zz show ?thesis by (auto simp: round_even_def Let_def)
  next
    case False
    with f have "\<lfloor>z\<rfloor> + 1 \<le> \<lfloor>z'\<rfloor>" by simp
    moreover have "round_even z \<le> \<lfloor>z\<rfloor> + 1" by (simp add: round_even_def Let_def)
    moreover have "\<lfloor>z'\<rfloor> \<le> round_even z'" by (simp add: round_even_def Let_def)
    ultimately show ?thesis by linarith
  qed
qed

lemma round_even_minus: "round_even (- z) = - round_even z"
proof (cases "z = of_int \<lfloor>z\<rfloor>")
  case True
  then have "- z = of_int (- \<lfloor>z\<rfloor>)" by simp
  then have "round_even (- z) = - \<lfloor>z\<rfloor>" by (simp only: round_even_int)
  moreover from True have "round_even z = \<lfloor>z\<rfloor>" by (metis round_even_int)
  ultimately show ?thesis by simp
next
  case False
  then have f: "\<lfloor>- z\<rfloor> = - \<lfloor>z\<rfloor> - 1"
    by (simp add: floor_eq_iff) linarith
  have d: "- z - of_int \<lfloor>- z\<rfloor> = 1 - (z - of_int \<lfloor>z\<rfloor>)"
    unfolding f by simp
  show ?thesis
    unfolding round_even_def Let_def d unfolding f by auto
qed

lemma ulp_pos: "0 < (2::real) powi e"
  by (rule zero_less_power_int) simp

lemma nearest64_minus: "nearest64 (- x) = - nearest64 x"
  by (simp add: nearest64_def round_even_minus)

lemma nearest64_nonneg: "0 \<le> x \<Longrightarrow> 0 \<le> nearest64 x"
proof -
  assume "0 \<le> x"
  then have "of_int 0 \<le> x / 2 powi (exponent64 x - 52)"
    using ulp_pos [of "exponent64 x - 52"] by simp
  then have "0 \<le> round_even (x / 2 powi (exponent64 x - 52))"
    by (rule round_even_ge)
  then show ?thesis
    using ulp_pos [of "exponent64 x - 52"] by (simp add: nearest64_def)
qed

lemma nearest64_nonpos: "x \<le> 0 \<Longrightarrow> nearest64 x \<le> 0"
  using nearest64_nonneg [of "- x"] by (simp add: nearest64_minus)

lemma nearest64_upper:
  assumes "0 \<le> x" and "exponent64 x < 1024"
  shows "nearest64 x \<le> 2 powi (exponent64 x + 1)"
proof -
  define e where "e = exponent64 x"
  define u :: real where "u = 2 powi (e - 52)"
  have u: "0 < u" unfolding u_def by (rule ulp_pos)
  have split: "(2::real) powi (e + 1) = 2 ^ 53 * u"
    unfolding u_def by (simp add: power_int_diff power_int_add)
  from exponent64_upper [OF assms(2)] assms(1) have "x < 2 powi (e + 1)"
    by (simp add: e_def)
  then have "x / u \<le> 2 ^ 53" using u unfolding split by (simp add: pos_divide_le_eq)
  then have "x / u \<le> of_int (2 ^ 53)" by simp
  then have "round_even (x / u) \<le> 2 ^ 53" by (rule round_even_le)
  then have "(of_int (round_even (x / u)) :: real) \<le> of_int (2 ^ 53)"
    by (simp only: of_int_le_iff)
  then have "of_int (round_even (x / u)) * u \<le> 2 ^ 53 * u"
    using u by (intro mult_right_mono) simp_all
  then show ?thesis
    unfolding split [symmetric] by (simp add: nearest64_def e_def u_def)
qed

lemma nearest64_lower:
  assumes "0 \<le> x" and "- 1022 < exponent64 x"
  shows "2 powi (exponent64 x) \<le> nearest64 x"
proof -
  define e where "e = exponent64 x"
  define u :: real where "u = 2 powi (e - 52)"
  have u: "0 < u" unfolding u_def by (rule ulp_pos)
  have split: "(2::real) powi e = 2 ^ 52 * u"
    unfolding u_def by (simp add: power_int_diff)
  from exponent64_lower [OF assms(2)] assms(1) have "2 powi e \<le> x"
    by (simp add: e_def)
  then have "2 ^ 52 \<le> x / u" using u unfolding split by (simp add: pos_le_divide_eq)
  then have "of_int (2 ^ 52) \<le> x / u" by simp
  then have "2 ^ 52 \<le> round_even (x / u)" by (rule round_even_ge)
  then have "(of_int (2 ^ 52) :: real) \<le> of_int (round_even (x / u))"
    by (simp only: of_int_le_iff)
  then have "2 ^ 52 * u \<le> of_int (round_even (x / u)) * u"
    using u by (intro mult_right_mono) simp_all
  then show ?thesis
    unfolding split [symmetric] by (simp add: nearest64_def e_def u_def)
qed

lemma nearest64_mono_nonneg:
  assumes "0 \<le> x" and "x \<le> y"
  shows "nearest64 x \<le> nearest64 y"
proof -
  have y: "0 \<le> y" using assms by simp
  have le: "exponent64 x \<le> exponent64 y"
    using assms by (intro exponent64_mono) simp
  show ?thesis
  proof (cases "exponent64 x = exponent64 y")
    case True
    define u :: real where "u = 2 powi (exponent64 y - 52)"
    have u: "0 < u" unfolding u_def by (rule ulp_pos)
    have "x / u \<le> y / u" using assms(2) u by (simp add: divide_right_mono)
    then have "round_even (x / u) \<le> round_even (y / u)" by (rule round_even_mono)
    then have "(of_int (round_even (x / u)) :: real) \<le> of_int (round_even (y / u))"
      by (simp only: of_int_le_iff)
    then have "of_int (round_even (x / u)) * u \<le> of_int (round_even (y / u)) * u"
      using u by (intro mult_right_mono) simp_all
    then show ?thesis by (simp add: nearest64_def True u_def)
  next
    case False
    with le have lt: "exponent64 x + 1 \<le> exponent64 y" by simp
    with exponent64_range(2) [of y] exponent64_range(1) [of x]
    have "exponent64 x < 1024" and "- 1022 < exponent64 y" by simp_all
    then have "nearest64 x \<le> 2 powi (exponent64 x + 1)"
      and "2 powi (exponent64 y) \<le> nearest64 y"
      using assms(1) y by (simp_all add: nearest64_upper nearest64_lower)
    moreover have "(2::real) powi (exponent64 x + 1) \<le> 2 powi (exponent64 y)"
      using lt by (intro power_int_increasing) simp_all
    ultimately show ?thesis by linarith
  qed
qed

lemma nearest64_mono:
  assumes "x \<le> y"
  shows "nearest64 x \<le> nearest64 y"
proof (cases "0 \<le> x")
  case True
  then show ?thesis using assms by (rule nearest64_mono_nonneg)
next
  case False
  show ?thesis
  proof (cases "0 \<le> y")
    case True
    with False nearest64_nonpos [of x] nearest64_nonneg [of y] show ?thesis by simp
  next
    case False
    with assms have "0 \<le> - y" "- y \<le> - x" by simp_all
    then have "nearest64 (- y) \<le> nearest64 (- x)" by (rule nearest64_mono_nonneg)
    then show ?thesis by (simp add: nearest64_minus)
  qed
qed

lemma exponent64_small: "\<bar>y\<bar> < 2 powi (- 1021) \<Longrightarrow> exponent64 y = - 1022"
proof -
  assume "\<bar>y\<bar> < 2 powi (- 1021)"
  then have "\<not> 2 powi (- 1022 + 1) \<le> \<bar>y\<bar>" by simp
  moreover have "(2046::nat) = Suc 2045" by simp
  ultimately show ?thesis
    unfolding exponent64_def by (simp only: exponent_from.simps if_False)
qed

lemma nearest64_idem_nonneg:
  assumes "0 \<le> x" and "nearest64 x < 2 powi 1024"
  shows "nearest64 (nearest64 x) = nearest64 x"
proof -
  define e where "e = exponent64 x"
  define u :: real where "u = 2 powi (e - 52)"
  define k where "k = round_even (x / u)"
  define y where "y = nearest64 x"
  have u: "0 < u" unfolding u_def by (rule ulp_pos)
  have y: "y = of_int k * u" by (simp add: y_def nearest64_def k_def u_def e_def)
  have y0: "0 \<le> y" unfolding y_def using assms(1) by (rule nearest64_nonneg)
  have e_lo: "- 1022 \<le> e" unfolding e_def by (rule exponent64_range)
  have e_hi: "e \<le> 1023"
  proof (rule ccontr)
    assume "\<not> e \<le> 1023"
    with exponent64_range(2) [of x] have e: "exponent64 x = 1024" by (simp add: e_def)
    then have "2 powi 1024 \<le> nearest64 x"
      using nearest64_lower [OF assms(1)] by simp
    with assms(2) show False by simp
  qed
  then have "exponent64 x < 1024" by (simp add: e_def)
  then have top: "y \<le> 2 powi (e + 1)"
    unfolding y_def e_def using assms(1) by (intro nearest64_upper)
  show ?thesis
  proof (cases "y = 2 powi (e + 1)")
    case True
    have "e + 1 \<le> 1023"
    proof (rule ccontr)
      assume "\<not> e + 1 \<le> 1023"
      with e_hi have "e + 1 = 1024" by simp
      with True assms(2) show False by (simp add: y_def)
    qed
    have "(2::real) powi (e + 1) < 2 powi (e + 1 + 1)"
      by (intro power_int_strict_increasing) simp_all
    then have ey: "exponent64 y = e + 1"
      using e_lo \<open>e + 1 \<le> 1023\<close> True by (intro exponent64_eq) simp_all
    define d where "d = e + 1 - 52"
    have e1: "e + 1 = 52 + d" by (simp add: d_def)
    have sp: "(2::real) powi (52 + d) = 2 powi 52 * 2 powi d"
      by (rule power_int_add) simp
    have p52: "(2::real) powi 52 = of_int (2 ^ 52)" by (simp add: power_int_def)
    have "y / 2 powi d = 2 powi 52"
      unfolding True e1 sp using ulp_pos [of d] by simp
    then have "round_even (y / 2 powi d) = 2 ^ 52"
      unfolding p52 by (simp only: round_even_int)
    then have "nearest64 y = of_int (2 ^ 52) * 2 powi d"
      by (simp add: nearest64_def ey d_def)
    also have "\<dots> = 2 powi (52 + d)"
      unfolding sp p52 ..
    finally show ?thesis using True by (simp add: y_def e1)
  next
    case False
    with top have lt: "y < 2 powi (e + 1)" by simp
    have ey: "exponent64 y = e"
    proof (cases "e = - 1022")
      case True
      with lt y0 have "\<bar>y\<bar> < 2 powi (- 1021)" by simp
      then show ?thesis using True by (simp add: exponent64_small)
    next
      case False
      with e_lo have "- 1022 < exponent64 x" by (simp add: e_def)
      then have "2 powi e \<le> y"
        unfolding y_def e_def using assms(1) by (intro nearest64_lower)
      then show ?thesis
        using e_lo e_hi lt y0 by (intro exponent64_eq) simp_all
    qed
    have "y / u = of_int k" using u by (simp add: y)
    then have "round_even (y / u) = k" by (simp only: round_even_int)
    then have "nearest64 y = of_int k * u"
      by (simp add: nearest64_def ey u_def)
    then show ?thesis by (simp add: y y_def [symmetric])
  qed
qed

lemma nearest64_idem:
  assumes "\<bar>nearest64 x\<bar> < 2 powi 1024"
  shows "nearest64 (nearest64 x) = nearest64 x"
proof (cases "0 \<le> x")
  case True
  with assms show ?thesis by (intro nearest64_idem_nonneg) simp_all
next
  case False
  then have "0 \<le> - x" by simp
  moreover from assms have "nearest64 (- x) < 2 powi 1024"
    by (simp add: nearest64_minus)
  ultimately have "nearest64 (nearest64 (- x)) = nearest64 (- x)"
    by (rule nearest64_idem_nonneg)
  then show ?thesis by (simp add: nearest64_minus)
qed

lemma binary64_not_NaN [simp]: "binary64 x \<noteq> NaN"
  by (simp add: binary64_nearest)

lemma binary64_idem: "binary64 x = Fin y \<Longrightarrow> binary64 y = Fin y"
proof -
  assume "binary64 x = Fin y"
  then have y: "y = nearest64 x" and b: "\<bar>nearest64 x\<bar> < 2 powi 1024"
    by (auto simp: binary64_nearest split: if_splits)
  from b have "nearest64 y = y" unfolding y by (rule nearest64_idem)
  moreover from b have "\<not> 2 powi 1024 \<le> \<bar>y\<bar>" unfolding y by simp
  ultimately show ?thesis by (simp add: binary64_nearest [of y])
qed

lemma binary64_mono:
  assumes "x \<le> y"
  shows "js_le (binary64 x) (binary64 y)"
proof -
  have T: "0 < (2::real) powi 1024" by (rule ulp_pos)
  note m = nearest64_mono [OF assms]
  show ?thesis
  proof (cases "0 < x")
    case True
    with assms have y: "0 < y" by simp
    from True y nearest64_nonneg [of x] nearest64_nonneg [of y]
    have "0 \<le> nearest64 x" "0 \<le> nearest64 y" by simp_all
    with m True y show ?thesis by (auto simp: binary64_nearest)
  next
    case False
    then have a: "nearest64 x \<le> 0" by (intro nearest64_nonpos) simp
    show ?thesis
    proof (cases "0 < y")
      case True
      then have "0 \<le> nearest64 y" by (intro nearest64_nonneg) simp
      with True False a show ?thesis by (auto simp: binary64_nearest)
    next
      case False
      then have "nearest64 y \<le> 0" by (intro nearest64_nonpos) simp
      with a m False \<open>\<not> 0 < x\<close> show ?thesis by (auto simp: binary64_nearest)
    qed
  qed
qed

lemma binary64_nonneg: "0 \<le> x \<Longrightarrow> js_le (Fin 0) (binary64 x)"
  using binary64_mono [of 0 x] by simp

lemma js_le_trans: "js_le a b \<Longrightarrow> js_le b c \<Longrightarrow> js_le a c"
  by (cases a; cases b; cases c) simp_all

section \<open>The balances in double arithmetic\<close>

lemma balance_step:
  assumes "0 \<le> b" and "binary64 b = Fin b" and "js_le (Fin 0) pr"
  shows "\<exists>c. Math_max (Fin 0) (rounded binary64 (Fin b - pr)) = Fin c \<and>
             0 \<le> c \<and> c \<le> b \<and> binary64 c = Fin c"
proof (cases pr)
  case (Fin q)
  with assms(3) have q: "0 \<le> q" by simp
  then have "js_le (binary64 (b - q)) (binary64 b)"
    by (intro binary64_mono) simp
  then have le: "js_le (binary64 (b - q)) (Fin b)" by (simp add: assms(2))
  show ?thesis
  proof (cases "binary64 (b - q)")
    case (Fin y)
    with le have y: "y \<le> b" by simp
    have "binary64 (max 0 y) = Fin (max 0 y)"
    proof (cases "y \<le> 0")
      case True
      then show ?thesis by (simp add: max_def)
    next
      case False
      with binary64_idem [OF Fin] show ?thesis by (simp add: max_def)
    qed
    with y assms(1) Fin \<open>pr = Fin q\<close> show ?thesis by simp
  next
    case PInf
    with le show ?thesis by simp
  next
    case NInf
    with assms(1) \<open>pr = Fin q\<close> show ?thesis by simp
  next
    case NaN
    then show ?thesis by simp
  qed
next
  case PInf
  with assms(1) show ?thesis by (simp add: minus_jsnum_def)
next
  case NInf
  with assms(3) show ?thesis by simp
next
  case NaN
  with assms(3) show ?thesis by simp
qed

lemma balances_double:
  assumes "0 \<le> loanAmount inp" and "binary64 (loanAmount inp) = Fin (loanAmount inp)"
    and "K \<le> nat (Math_round (years inp))"
    and "\<forall>i<K. int i + 1 \<noteq> Math_round (years inp) \<longrightarrow>
           js_le (Fin 0) (row.principal (schedule (computeMortgage_rounded binary64 inp) ! i))"
  shows "k \<le> K \<Longrightarrow>
         \<exists>b. balance_before (loanAmount inp) (schedule (computeMortgage_rounded binary64 inp)) k
               = Fin b \<and> 0 \<le> b \<and> b \<le> loanAmount inp \<and> binary64 b = Fin b"
proof (induction k)
  case 0
  show ?case using assms(1,2) by (simp add: balance_before_def)
next
  case (Suc k)
  let ?S = "schedule (computeMortgage_rounded binary64 inp)" and ?P = "loanAmount inp"
  from Suc obtain b where b: "balance_before ?P ?S k = Fin b" "0 \<le> b" "b \<le> ?P"
    "binary64 b = Fin b"
    by auto
  from Suc.prems assms(3) have k: "k < nat (Math_round (years inp))" "k < K" by simp_all
  have pr: "js_le (Fin 0) (row.principal (?S ! k))"
  proof (cases "int k + 1 = Math_round (years inp)")
    case True
    from ending_balance_rounded(2) [OF k(1) True, of binary64] b(1,2) show ?thesis by simp
  next
    case False
    with assms(4) k(2) show ?thesis by simp
  qed
  from balance_step [OF b(2,4) pr] obtain c where
    c: "Math_max (Fin 0) (rounded binary64 (Fin b - row.principal (?S ! k))) = Fin c"
       "0 \<le> c" "c \<le> b" "binary64 c = Fin c"
    by auto
  from ending_balance_rounded(1) [OF k(1), of binary64] b(1) c(1)
  have "endingBalance (?S ! k) = Fin c" by simp
  then have "balance_before ?P ?S (Suc k) = Fin c" by (simp add: balance_before_def)
  with c b(3) show ?case by simp
qed

lemma balances_double_rows:
  assumes "0 \<le> loanAmount inp" and "binary64 (loanAmount inp) = Fin (loanAmount inp)"
    and "\<forall>i<nat (Math_round (years inp)). int i + 1 \<noteq> Math_round (years inp) \<longrightarrow>
           js_le (Fin 0) (row.principal (schedule (computeMortgage_rounded binary64 inp) ! i))"
    and "i < nat (Math_round (years inp))"
  shows "js_le (Fin 0) (endingBalance (schedule (computeMortgage_rounded binary64 inp) ! i))"
    and "js_le (endingBalance (schedule (computeMortgage_rounded binary64 inp) ! i))
           (balance_before (loanAmount inp) (schedule (computeMortgage_rounded binary64 inp)) i)"
    and "js_isFinite
           (balance_before (loanAmount inp) (schedule (computeMortgage_rounded binary64 inp)) i)"
proof -
  let ?S = "schedule (computeMortgage_rounded binary64 inp)" and ?P = "loanAmount inp"
  note inv = balances_double [OF assms(1,2) order_refl assms(3)]
  from inv [of i] assms(4) obtain b where
    b: "balance_before ?P ?S i = Fin b" "0 \<le> b" "binary64 b = Fin b"
    by auto
  have pr: "js_le (Fin 0) (row.principal (?S ! i))"
  proof (cases "int i + 1 = Math_round (years inp)")
    case True
    from ending_balance_rounded(2) [OF assms(4) True, of binary64] b(1,2) show ?thesis by simp
  next
    case False
    with assms(3,4) show ?thesis by simp
  qed
  from balance_step [OF b(2,3) pr] obtain c where
    c: "Math_max (Fin 0) (rounded binary64 (Fin b - row.principal (?S ! i))) = Fin c"
       "0 \<le> c" "c \<le> b"
    by auto
  from ending_balance_rounded(1) [OF assms(4), of binary64] b(1) c(1)
  have "endingBalance (?S ! i) = Fin c" by simp
  with c(2,3) b(1) show "js_le (Fin 0) (endingBalance (?S ! i))"
    and "js_le (endingBalance (?S ! i)) (balance_before ?P ?S i)"
    and "js_isFinite (balance_before ?P ?S i)"
    by simp_all
qed

lemma principal_later:
  assumes first: "js_le (Fin 0) (rounded binary64 (pay - rounded binary64 (Fin P * r)))"
    and r: "js_le (Fin 0) r" and b: "0 \<le> b" "b \<le> P"
  shows "js_le (Fin 0) (rounded binary64 (pay - rounded binary64 (Fin b * r)))"
proof (cases r)
  case (Fin q)
  with r have q: "0 \<le> q" by simp
  have bq: "0 \<le> b * q" "b * q \<le> P * q"
    using b q by (simp_all add: mult_right_mono)
  from binary64_mono [OF bq(2)] binary64_nonneg [OF bq(1)]
  have ik: "js_le (binary64 (b * q)) (binary64 (P * q))" "js_le (Fin 0) (binary64 (b * q))" .
  show ?thesis
  proof (cases "binary64 (P * q)")
    case i0: (Fin v)
    with ik obtain w where w: "binary64 (b * q) = Fin w" "w \<le> v"
      by (cases "binary64 (b * q)") simp_all
    show ?thesis
    proof (cases pay)
      case (Fin p)
      have "js_le (binary64 (p - v)) (binary64 (p - w))"
        using w(2) by (intro binary64_mono) simp
      moreover from first have "js_le (Fin 0) (binary64 (p - v))"
        by (simp add: \<open>r = Fin q\<close> i0 Fin)
      ultimately have "js_le (Fin 0) (binary64 (p - w))" by (rule js_le_trans [rotated])
      then show ?thesis by (simp add: \<open>r = Fin q\<close> w(1) Fin)
    next
      case PInf
      then show ?thesis by (simp add: \<open>r = Fin q\<close> w(1) minus_jsnum_def)
    next
      case NInf
      with first show ?thesis by (simp add: \<open>r = Fin q\<close> i0 minus_jsnum_def)
    next
      case NaN
      with first show ?thesis by (simp add: minus_jsnum_def)
    qed
  next
    case PInf
    with first show ?thesis
      by (cases pay) (simp_all add: \<open>r = Fin q\<close> minus_jsnum_def)
  next
    case NInf
    with binary64_nonneg [of "P * q"] b q show ?thesis by simp
  next
    case NaN
    then show ?thesis by simp
  qed
next
  case PInf
  with first b show ?thesis
    by (cases pay) (simp_all add: minus_jsnum_def split: if_splits)
next
  case NInf
  with r show ?thesis by simp
next
  case NaN
  with r show ?thesis by simp
qed

lemma rate_nonneg:
  assumes "0 \<le> annualRate inp"
  shows "js_le (Fin 0) (rounded binary64 (Fin (annualRate inp) / Fin 100))"
  using assms by (simp add: binary64_nonneg)

lemma principal_nonneg:
  assumes "0 \<le> loanAmount inp" and "binary64 (loanAmount inp) = Fin (loanAmount inp)"
    and "0 \<le> annualRate inp" and "1 \<le> Math_round (years inp)"
    and first: "js_le (Fin 0)
                  (row.principal (schedule (computeMortgage_rounded binary64 inp) ! 0))"
  shows "K \<le> nat (Math_round (years inp)) \<Longrightarrow>
         \<forall>i<K. int i + 1 \<noteq> Math_round (years inp) \<longrightarrow>
           js_le (Fin 0) (row.principal (schedule (computeMortgage_rounded binary64 inp) ! i))"
proof (induction K)
  case 0
  show ?case by simp
next
  case (Suc K)
  let ?S = "schedule (computeMortgage_rounded binary64 inp)" and ?P = "loanAmount inp"
  let ?n = "Math_round (years inp)"
  let ?r = "rounded binary64 (Fin (annualRate inp) / Fin 100)"
  let ?pay = "result.payment (computeMortgage_rounded binary64 inp)"
  from Suc have IH: "\<forall>i<K. int i + 1 \<noteq> ?n \<longrightarrow> js_le (Fin 0) (row.principal (?S ! i))"
    and K: "K < nat ?n" "K \<le> nat ?n"
    by simp_all
  have n: "0 \<le> ?n" using assms(4) by simp
  have "js_le (Fin 0) (row.principal (?S ! K))" if nf: "int K + 1 \<noteq> ?n"
  proof (cases "K = 0")
    case True
    with first show ?thesis by simp
  next
    case False
    with K(1) have nf0: "int 0 + 1 \<noteq> ?n" and zero: "0 < nat ?n" by simp_all
    from balances_double [OF assms(1,2) K(2) IH, of K]
    obtain b where b: "balance_before ?P ?S K = Fin b" "0 \<le> b" "b \<le> ?P"
      by auto
    show ?thesis
    proof (cases "js_eq ?r (Fin 0)")
      case True
      from computeMortgage_rounded_zero(3) [OF True n] K(1) zero
      have "zero_row_rounded binary64 ?pay ?n ?P ?S K" "zero_row_rounded binary64 ?pay ?n ?P ?S 0"
        by simp_all
      with nf nf0 have "row.principal (?S ! K) = row.principal (?S ! 0)"
        by (simp add: zero_row_rounded_def)
      with first show ?thesis by simp
    next
      case False
      from computeMortgage_rounded_rate(3) [OF False n] K(1) zero
      have rows: "rate_row_rounded binary64 ?pay ?r ?n ?P ?S K"
        "rate_row_rounded binary64 ?pay ?r ?n ?P ?S 0"
        by simp_all
      from rows(2) nf0 first
      have "js_le (Fin 0) (rounded binary64 (?pay - rounded binary64 (Fin ?P * ?r)))"
        by (simp add: rate_row_rounded_def balance_before_def)
      then have "js_le (Fin 0) (rounded binary64 (?pay - rounded binary64 (Fin b * ?r)))"
        using rate_nonneg [OF assms(3)] b(2,3) by (rule principal_later)
      with rows(1) nf b(1) show ?thesis
        by (simp add: rate_row_rounded_def)
    qed
  qed
  with IH show ?case by (auto simp: less_Suc_eq)
qed

lemma first_principal_zero_rate:
  assumes "0 \<le> loanAmount inp" and "annualRate inp = 0" and "1 \<le> Math_round (years inp)"
  shows "js_le (Fin 0) (row.principal (schedule (computeMortgage_rounded binary64 inp) ! 0))"
proof -
  let ?S = "schedule (computeMortgage_rounded binary64 inp)" and ?P = "loanAmount inp"
  let ?n = "Math_round (years inp)"
  have z: "js_eq (rounded binary64 (Fin (annualRate inp) / Fin 100)) (Fin 0)"
    using assms(2) by simp
  have n: "0 \<le> ?n" "0 < nat ?n" "real_of_int ?n \<noteq> 0" "0 \<le> ?P / real_of_int ?n"
    using assms(1,3) by simp_all
  from computeMortgage_rounded_zero(1,3) [OF z n(1)] n(2)
  have "zero_row_rounded binary64 (rounded binary64 (Fin ?P / Fin (of_int ?n))) ?n ?P ?S 0"
    by simp
  then have "row.principal (?S ! 0)
               = (if 1 = ?n then Fin ?P else binary64 (?P / real_of_int ?n))"
    using n(3) by (simp add: zero_row_rounded_def balance_before_def)
  with binary64_nonneg [OF n(4)] assms(1) show ?thesis by simp
qed

lemma balances_in_doubles:
  assumes "0 \<le> loanAmount inp" and "binary64 (loanAmount inp) = Fin (loanAmount inp)"
    and "0 \<le> annualRate inp" and "1 \<le> Math_round (years inp)"
    and "js_le (Fin 0) (row.principal (schedule (computeMortgage_rounded binary64 inp) ! 0))"
  shows "\<forall>i < nat (Math_round (years inp)).
           js_le (Fin 0) (endingBalance (schedule (computeMortgage_rounded binary64 inp) ! i)) \<and>
           js_le (endingBalance (schedule (computeMortgage_rounded binary64 inp) ! i))
             (balance_before (loanAmount inp)
                (schedule (computeMortgage_rounded binary64 inp)) i)"
    and "endingBalance (schedule (computeMortgage_rounded binary64 inp)
                          ! (nat (Math_round (years inp)) - 1)) = Fin 0"
proof -
  note pr = principal_nonneg [OF assms order_refl]
  show "\<forall>i < nat (Math_round (years inp)).
           js_le (Fin 0) (endingBalance (schedule (computeMortgage_rounded binary64 inp) ! i)) \<and>
           js_le (endingBalance (schedule (computeMortgage_rounded binary64 inp) ! i))
             (balance_before (loanAmount inp)
                (schedule (computeMortgage_rounded binary64 inp)) i)"
    using balances_double_rows(1,2) [OF assms(1,2) pr] by blast
  have "nat (Math_round (years inp)) - 1 < nat (Math_round (years inp))"
    using assms(4) by simp
  from balances_double_rows(3) [OF assms(1,2) pr this]
  show "endingBalance (schedule (computeMortgage_rounded binary64 inp)
                          ! (nat (Math_round (years inp)) - 1)) = Fin 0"
    using final_balance_rounded [of inp binary64] assms(4) by simp
qed

section \<open>The total principal in double arithmetic\<close>

lemma nearest64_error:
  assumes "0 \<le> x" and "x \<le> B" and "2 powi (- 1022) \<le> B"
  shows "\<bar>nearest64 x - x\<bar> \<le> B / 2 ^ 53"
proof -
  define e where "e = exponent64 x"
  define u :: real where "u = 2 powi (e - 52)"
  define m where "m = round_even (x / u)"
  have u: "0 < u" unfolding u_def by (rule ulp_pos)
  have "\<bar>of_int m - x / u\<bar> \<le> 1 / 2"
    unfolding m_def by (rule round_even_dist)
  then have "\<bar>of_int m - x / u\<bar> * u \<le> 1 / 2 * u"
    using u by (intro mult_right_mono) simp_all
  moreover have "\<bar>of_int m - x / u\<bar> * u = \<bar>(of_int m - x / u) * u\<bar>"
    using u by (simp add: abs_mult)
  moreover have "(of_int m - x / u) * u = of_int m * u - x"
    using u by (simp add: left_diff_distrib)
  ultimately have near: "\<bar>of_int m * u - x\<bar> \<le> u / 2" by simp
  have eB: "2 powi e \<le> B"
  proof (cases "- 1022 < e")
    case True
    then have "2 powi e \<le> \<bar>x\<bar>" unfolding e_def by (rule exponent64_lower)
    with assms(1,2) show ?thesis by simp
  next
    case False
    with exponent64_range(1) [of x] have "e = - 1022" by (simp add: e_def)
    with assms(3) show ?thesis by simp
  qed
  have "(2::real) powi e = 2 ^ 52 * u"
    unfolding u_def by (simp add: power_int_diff)
  then have "u / 2 = 2 powi e / 2 ^ 53" by simp
  also have "\<dots> \<le> B / 2 ^ 53" using eB by (simp add: divide_right_mono)
  finally have "u / 2 \<le> B / 2 ^ 53" .
  with near show ?thesis by (simp add: nearest64_def m_def u_def e_def)
qed

lemma binary64_power_1001: "binary64 (2 powi 1001) = Fin (2 powi 1001)"
proof -
  have "(2::real) powi 1001 / 2 powi (1001 - 52) = of_int (2 ^ 52)"
    by (simp add: power_int_diff power_int_def)
  then have "round_even ((2::real) powi 1001 / 2 powi (1001 - 52)) = 2 ^ 52"
    by (simp only: round_even_int)
  moreover have "(2::real) powi 1001 < 2 powi (1001 + 1)"
    by (intro power_int_strict_increasing) simp_all
  ultimately have "binary64 (2 powi 1001) = Fin (of_int (2 ^ 52) * 2 powi (1001 - 52))"
    by (intro binary64_eval) simp_all
  also have "of_int (2 ^ 52) * (2::real) powi (1001 - 52) = 2 powi 1001"
    by (simp add: power_int_diff power_int_def)
  finally show ?thesis .
qed

lemma binary64_bounded:
  assumes "0 \<le> x" and "x \<le> B" and "2 powi (- 1022) \<le> B" and "B \<le> 2 powi 1001"
  shows "\<exists>y. binary64 x = Fin y \<and> 0 \<le> y \<and> \<bar>y - x\<bar> \<le> B / 2 ^ 53"
proof -
  from assms(2,4) have "x \<le> 2 powi 1001" by simp
  then have "js_le (binary64 x) (binary64 (2 powi 1001))" by (rule binary64_mono)
  then have "js_le (binary64 x) (Fin (2 powi 1001))" by (simp only: binary64_power_1001)
  moreover have "js_le (Fin 0) (binary64 x)" using assms(1) by (rule binary64_nonneg)
  ultimately obtain y where y: "binary64 x = Fin y" "0 \<le> y"
    by (cases "binary64 x") simp_all
  then have "y = nearest64 x"
    by (auto simp: binary64_nearest split: if_splits)
  with nearest64_error [OF assms(1-3)] y show ?thesis by simp
qed


lemma unclamped_step:
  assumes m: "Math_max (Fin 0) (rounded binary64 (Fin b - pr)) = Fin c" and c: "0 < c"
    and b: "0 \<le> b" "b \<le> B" and B: "2 powi (- 1022) \<le> B" and pr: "js_le (Fin 0) pr"
  shows "\<exists>q. pr = Fin q \<and> 0 \<le> q \<and> \<bar>q - (b - c)\<bar> \<le> B / 2 ^ 53"
proof (cases pr)
  case (Fin q)
  with pr have q: "0 \<le> q" by simp
  from m Fin have m': "Math_max (Fin 0) (binary64 (b - q)) = Fin c" by simp
  then obtain y where y: "binary64 (b - q) = Fin y"
    using c by (cases "binary64 (b - q)") simp_all
  with m' c have yc: "y = c" by (simp add: max_def split: if_splits)
  have pos: "0 \<le> b - q"
  proof (rule ccontr)
    assume "\<not> 0 \<le> b - q"
    then have "b - q \<le> 0" by simp
    then have "js_le (binary64 (b - q)) (binary64 0)" by (rule binary64_mono)
    with y yc c show False by simp
  qed
  from q b have le: "b - q \<le> B" by simp
  from y yc have "c = nearest64 (b - q)"
    by (auto simp: binary64_nearest split: if_splits)
  with nearest64_error [OF pos le B] have "\<bar>c - (b - q)\<bar> \<le> B / 2 ^ 53" by simp
  then have "\<bar>q - (b - c)\<bar> \<le> B / 2 ^ 53" by (simp add: abs_if split: if_splits)
  with Fin q show ?thesis by simp
next
  case PInf
  with m c show ?thesis by (simp add: minus_jsnum_def)
next
  case NInf
  with pr show ?thesis by simp
next
  case NaN
  with pr show ?thesis by simp
qed

lemma running_sum_take:
  assumes "k < length xs"
  shows "running_sum rd (take (Suc k) xs) = rounded rd (running_sum rd (take k xs) + xs ! k)"
  using assms by (simp add: running_sum_def take_Suc_conv_app_nth)

lemma balances_antitone:
  assumes "0 \<le> loanAmount inp" and "binary64 (loanAmount inp) = Fin (loanAmount inp)"
    and "0 \<le> annualRate inp" and "1 \<le> Math_round (years inp)"
    and "js_le (Fin 0) (row.principal (schedule (computeMortgage_rounded binary64 inp) ! 0))"
  shows "j \<le> nat (Math_round (years inp)) \<Longrightarrow> i \<le> j \<Longrightarrow>
         \<exists>b c. balance_before (loanAmount inp) (schedule (computeMortgage_rounded binary64 inp)) i
                 = Fin b \<and>
               balance_before (loanAmount inp) (schedule (computeMortgage_rounded binary64 inp)) j
                 = Fin c \<and> 0 \<le> c \<and> c \<le> b \<and> b \<le> loanAmount inp"
proof (induction j)
  case 0
  then show ?case using assms(1) by (simp add: balance_before_def)
next
  case (Suc j)
  let ?S = "schedule (computeMortgage_rounded binary64 inp)" and ?P = "loanAmount inp"
  note pr = principal_nonneg [OF assms order_refl]
  note inv = balances_double [OF assms(1,2) order_refl pr]
  from inv [of "Suc j"] Suc.prems(1) obtain c' where
    c': "balance_before ?P ?S (Suc j) = Fin c'" "0 \<le> c'" "c' \<le> ?P"
    by auto
  show ?case
  proof (cases "i = Suc j")
    case True
    with c' show ?thesis by simp
  next
    case False
    with Suc.prems have ij: "i \<le> j" and j: "j \<le> nat (Math_round (years inp))"
      and jl: "j < nat (Math_round (years inp))"
      by simp_all
    from Suc.IH [OF j ij] obtain b c where
      bc: "balance_before ?P ?S i = Fin b" "balance_before ?P ?S j = Fin c" "c \<le> b" "b \<le> ?P"
      by auto
    from balances_in_doubles(1) [OF assms] jl
    have "js_le (endingBalance (?S ! j)) (balance_before ?P ?S j)" by simp
    moreover have "balance_before ?P ?S (Suc j) = endingBalance (?S ! j)"
      by (simp add: balance_before_def)
    ultimately have "js_le (Fin c') (Fin c)" using c'(1) bc(2) by metis
    then have "c' \<le> c" by simp
    with bc c' show ?thesis by simp
  qed
qed

lemma sum_error_step:
  fixes P :: real
  assumes "\<bar>t - (P - b)\<bar> \<le> 3 * real k * (P / 2 ^ 53)"
    and "\<bar>q - (b - c)\<bar> \<le> P / 2 ^ 53"
    and "\<bar>t' - (t + q)\<bar> \<le> 2 * P / 2 ^ 53"
  shows "\<bar>t' - (P - c)\<bar> \<le> 3 * real (Suc k) * (P / 2 ^ 53)"
proof -
  have "t' - (P - c) = (t' - (t + q)) + (t - (P - b)) + (q - (b - c))" by simp
  then have "\<bar>t' - (P - c)\<bar> \<le> \<bar>t' - (t + q)\<bar> + \<bar>t - (P - b)\<bar> + \<bar>q - (b - c)\<bar>"
    by linarith
  also have "\<dots> \<le> 2 * P / 2 ^ 53 + 3 * real k * (P / 2 ^ 53) + P / 2 ^ 53"
    using assms by linarith
  also have "\<dots> = 3 * real (Suc k) * (P / 2 ^ 53)" by (simp add: algebra_simps)
  finally show ?thesis .
qed

lemma sum_bound:
  fixes P :: real
  assumes "0 \<le> P" and "k \<le> 2 ^ 20" and "\<bar>t - (P - b)\<bar> \<le> 3 * real k * (P / 2 ^ 53)"
    and "\<bar>q - (b - c)\<bar> \<le> P / 2 ^ 53" and "0 \<le> c"
  shows "t + q \<le> 2 * P"
proof -
  from assms(2) have "real k \<le> 2 ^ 20"
    by (metis of_nat_le_iff of_nat_numeral of_nat_power)
  then have "3 * real k + 1 \<le> 2 ^ 53" by simp
  then have "(3 * real k + 1) * (P / 2 ^ 53) \<le> 2 ^ 53 * (P / 2 ^ 53)"
    using assms(1) by (intro mult_right_mono) simp_all
  then have small: "3 * real k * (P / 2 ^ 53) + P / 2 ^ 53 \<le> P"
    by (simp add: algebra_simps)
  have "t + q = (t - (P - b)) + (q - (b - c)) + (P - c)" by simp
  also have "\<dots> \<le> \<bar>t - (P - b)\<bar> + \<bar>q - (b - c)\<bar> + (P - c)" by linarith
  also have "\<dots> \<le> 3 * real k * (P / 2 ^ 53) + P / 2 ^ 53 + P"
    using assms(3,4,5) by linarith
  also have "\<dots> \<le> 2 * P" using small by linarith
  finally show ?thesis .
qed

lemma tolerance_bound:
  fixes P :: real
  assumes "0 \<le> P" and "N \<le> 2 ^ 20" and "\<bar>t - P\<bar> \<le> 3 * real N * (P / 2 ^ 53)"
  shows "\<bar>t - P\<bar> \<le> \<bar>P\<bar> / 10 ^ 6"
proof -
  from assms(2) have "real N \<le> 2 ^ 20"
    by (metis of_nat_le_iff of_nat_numeral of_nat_power)
  then have "3 * real N * 10 ^ 6 \<le> 2 ^ 53" by simp
  then have "3 * real N / 2 ^ 53 \<le> 1 / 10 ^ 6" by (simp add: field_simps)
  then have "3 * real N / 2 ^ 53 * P \<le> 1 / 10 ^ 6 * P"
    using assms(1) by (intro mult_right_mono) simp_all
  moreover have "3 * real N * (P / 2 ^ 53) = 3 * real N / 2 ^ 53 * P" by simp
  moreover have "\<bar>P\<bar> / 10 ^ 6 = 1 / 10 ^ 6 * P" using assms(1) by simp
  ultimately show ?thesis using assms(3) by linarith
qed


lemma principal_sum_invariant:
  assumes P: "0 \<le> loanAmount inp" "binary64 (loanAmount inp) = Fin (loanAmount inp)"
    and rate: "0 \<le> annualRate inp" and n: "1 \<le> Math_round (years inp)"
    and first: "js_le (Fin 0)
                  (row.principal (schedule (computeMortgage_rounded binary64 inp) ! 0))"
    and lo: "2 powi (- 1022) \<le> loanAmount inp" and hi: "loanAmount inp \<le> 2 powi 1000"
    and N: "nat (Math_round (years inp)) \<le> 2 ^ 20"
    and last: "\<not> js_le (balance_before (loanAmount inp)
                           (schedule (computeMortgage_rounded binary64 inp))
                           (nat (Math_round (years inp)) - 1)) (Fin 0)"
  shows "k \<le> nat (Math_round (years inp)) - 1 \<Longrightarrow>
         \<exists>t b. running_sum binary64
                  (take k (map row.principal (schedule (computeMortgage_rounded binary64 inp))))
                 = Fin t \<and>
               balance_before (loanAmount inp) (schedule (computeMortgage_rounded binary64 inp)) k
                 = Fin b \<and>
               0 \<le> t \<and> 0 \<le> b \<and>
               \<bar>t - (loanAmount inp - b)\<bar> \<le> 3 * real k * (loanAmount inp / 2 ^ 53)"
proof (induction k)
  case 0
  show ?case using P(1) by (simp add: running_sum_def balance_before_def)
next
  case (Suc k)
  let ?S = "schedule (computeMortgage_rounded binary64 inp)" and ?P = "loanAmount inp"
  let ?N = "nat (Math_round (years inp))"
  from Suc.prems have k: "k \<le> ?N - 1" "k < ?N" "Suc k \<le> ?N" "Suc k \<le> ?N - 1"
    "int k + 1 \<noteq> Math_round (years inp)" "?N - 1 \<le> ?N" "k \<le> Suc k" "k \<le> 2 ^ 20"
    using N by simp_all
  from Suc.IH [OF k(1)] obtain t b where
    tb: "running_sum binary64 (take k (map row.principal ?S)) = Fin t"
      "balance_before ?P ?S k = Fin b" "0 \<le> t" "0 \<le> b"
      "\<bar>t - (?P - b)\<bar> \<le> 3 * real k * (?P / 2 ^ 53)"
    by auto
  from balances_antitone [OF P rate n first k(3,7)] tb(2) obtain c where
    c: "balance_before ?P ?S (Suc k) = Fin c" "0 \<le> c" "c \<le> b" "b \<le> ?P"
    by auto
  from balances_antitone [OF P rate n first k(6,4)] c(1) obtain bl where
    bl: "balance_before ?P ?S (?N - 1) = Fin bl" "bl \<le> c"
    by auto
  with last have cpos: "0 < c" by simp
  have "balance_before ?P ?S (Suc k) = endingBalance (?S ! k)"
    by (simp add: balance_before_def)
  with ending_balance_rounded(1) [OF k(2), of binary64] c(1) tb(2)
  have m: "Math_max (Fin 0) (rounded binary64 (Fin b - row.principal (?S ! k))) = Fin c"
    by simp
  from principal_nonneg [OF P rate n first order_refl] k(2,5)
  have pr: "js_le (Fin 0) (row.principal (?S ! k))" by simp
  from unclamped_step [OF m cpos tb(4) c(4) lo pr] obtain q where
    q: "row.principal (?S ! k) = Fin q" "0 \<le> q" "\<bar>q - (b - c)\<bar> \<le> ?P / 2 ^ 53"
    by auto
  have len: "length ?S = ?N"
  proof (cases "js_eq (rounded binary64 (Fin (annualRate inp) / Fin 100)) (Fin 0)")
    case True
    from computeMortgage_rounded_zero(2) [OF True] n show ?thesis by simp
  next
    case False
    from computeMortgage_rounded_rate(2) [OF False] n show ?thesis by simp
  qed
  with k(2) have kl: "k < length (map row.principal ?S)" by simp
  have sum: "running_sum binary64 (take (Suc k) (map row.principal ?S))
               = binary64 (t + q)"
    using running_sum_take [OF kl, of binary64] tb(1) q(1) kl by simp
  have le2: "t + q \<le> 2 * ?P"
    using P(1) k(8) tb(5) q(3) c(2) by (rule sum_bound)
  have lo2: "2 powi (- 1022) \<le> 2 * ?P" using lo P(1) by simp
  have "(2::real) * 2 powi 1000 = 2 powi 1001" by (simp add: power_int_def)
  with hi have hi2: "2 * ?P \<le> 2 powi 1001" by simp
  have nn: "0 \<le> t + q" using tb(3) q(2) by simp
  from binary64_bounded [OF nn le2 lo2 hi2] obtain t' where
    t': "binary64 (t + q) = Fin t'" "0 \<le> t'" "\<bar>t' - (t + q)\<bar> \<le> 2 * ?P / 2 ^ 53"
    by auto
  from sum_error_step [OF tb(5) q(3) t'(3)]
  have "\<bar>t' - (?P - c)\<bar> \<le> 3 * real (Suc k) * (?P / 2 ^ 53)" .
  with sum t'(1,2) c(1,2) show ?case by simp
qed

lemma total_principal_in_doubles:
  assumes P: "0 \<le> loanAmount inp" "binary64 (loanAmount inp) = Fin (loanAmount inp)"
    and rate: "0 \<le> annualRate inp" and n: "1 \<le> Math_round (years inp)"
    and first: "js_le (Fin 0)
                  (row.principal (schedule (computeMortgage_rounded binary64 inp) ! 0))"
    and lo: "2 powi (- 1022) \<le> loanAmount inp" and hi: "loanAmount inp \<le> 2 powi 1000"
    and N: "Math_round (years inp) \<le> 2 ^ 20"
    and last: "\<not> js_le (balance_before (loanAmount inp)
                           (schedule (computeMortgage_rounded binary64 inp))
                           (nat (Math_round (years inp)) - 1)) (Fin 0)"
  shows "within_tolerance (totals.principal (totals (computeMortgage_rounded binary64 inp)))
           (Fin (loanAmount inp))"
proof (cases "js_eq (rounded binary64 (Fin (annualRate inp) / Fin 100)) (Fin 0)")
  case True
  from n have "0 \<le> Math_round (years inp)" by simp
  from computeMortgage_rounded_zero(4) [OF True this] show ?thesis by simp
next
  case False
  let ?S = "schedule (computeMortgage_rounded binary64 inp)" and ?P = "loanAmount inp"
  let ?N = "nat (Math_round (years inp))"
  from n have n0: "0 \<le> Math_round (years inp)" by simp
  from N n have N': "?N \<le> 2 ^ 20" by (simp add: nat_le_iff)
  have l: "?N - 1 < ?N" "int (?N - 1) + 1 = Math_round (years inp)" "Suc (?N - 1) = ?N"
    "?N - 1 \<le> 2 ^ 20"
    using n N' by simp_all
  from principal_sum_invariant [OF P rate n first lo hi N' last order_refl]
  obtain t b where
    tb: "running_sum binary64 (take (?N - 1) (map row.principal ?S)) = Fin t"
      "balance_before ?P ?S (?N - 1) = Fin b" "0 \<le> t" "0 \<le> b"
      "\<bar>t - (?P - b)\<bar> \<le> 3 * real (?N - 1) * (?P / 2 ^ 53)"
    by auto
  from ending_balance_rounded(2) [OF l(1,2), of binary64] tb(2)
  have pr: "row.principal (?S ! (?N - 1)) = Fin b" by simp
  from computeMortgage_rounded_rate(2) [OF False n0] have len: "length ?S = ?N" by simp
  with l(1) have kl: "?N - 1 < length (map row.principal ?S)" by simp
  from running_sum_take [OF kl, of binary64] tb(1) pr kl l(3) len
  have sum: "running_sum binary64 (map row.principal ?S) = binary64 (t + b)" by simp
  have q: "\<bar>b - (b - 0)\<bar> \<le> ?P / 2 ^ 53" using P(1) by simp
  have le2: "t + b \<le> 2 * ?P"
    using P(1) l(4) tb(5) q order_refl by (rule sum_bound)
  have lo2: "2 powi (- 1022) \<le> 2 * ?P" using lo P(1) by simp
  have "(2::real) * 2 powi 1000 = 2 powi 1001" by (simp add: power_int_def)
  with hi have hi2: "2 * ?P \<le> 2 powi 1001" by simp
  have nn: "0 \<le> t + b" using tb(3,4) by simp
  from binary64_bounded [OF nn le2 lo2 hi2] obtain t' where
    t': "binary64 (t + b) = Fin t'" "\<bar>t' - (t + b)\<bar> \<le> 2 * ?P / 2 ^ 53"
    by auto
  from sum_error_step [OF tb(5) q t'(2)] l(3)
  have "\<bar>t' - ?P\<bar> \<le> 3 * real ?N * (?P / 2 ^ 53)" by simp
  with P(1) N' have "\<bar>t' - ?P\<bar> \<le> \<bar>?P\<bar> / 10 ^ 6" by (rule tolerance_bound)
  moreover from computeMortgage_rounded_rate(4) [OF False n0] sum t'(1)
  have "totals.principal (totals (computeMortgage_rounded binary64 inp)) = Fin t'" by simp
  ultimately show ?thesis by simp
qed

section \<open>The totals of the zero-rate branch in double arithmetic\<close>


section \<open>The claims\<close>






text \<open>
  Claim C3 says that for a loan amount above 0, a rate of at least 0 and a term of at
  least one year the ending balance never goes up, is never negative and is 0 exactly in
  the last row. In the double arithmetic of the code it is not so for every such input:
  with loan amount 1000, rate 300 and a term of 512 years the power \<open>(1 + r) ^ n = 4 ^ 512\<close>
  overflows to \<^verbatim>\<open>Infinity\<close>, the payment is \<^verbatim>\<open>NaN\<close> (\<^verbatim>\<open>Infinity\<close> divided by \<^verbatim>\<open>Infinity\<close>) and
  so is every ending balance, the last included; \<^verbatim>\<open>NaN\<close> is neither at most the loan
  amount, nor at least 0, nor equal to 0.
\<close>

theorem balance_monotone_counterexample:
  "endingBalance (schedule (computeMortgage_rounded binary64
      \<lparr>loanAmount = 1000, annualRate = 300, years = 512\<rparr>) ! 0) = NaN \<and>
   endingBalance (schedule (computeMortgage_rounded binary64
      \<lparr>loanAmount = 1000, annualRate = 300, years = 512\<rparr>) ! 511) = NaN \<and>
   \<not> js_le NaN (Fin 1000) \<and> \<not> js_le (Fin 0) NaN \<and> \<not> js_eq NaN (Fin 0)"
proof -
  let ?inp = "\<lparr>loanAmount = 1000, annualRate = 300, years = 512\<rparr>"
  have n: "Math_round (years ?inp) = 512" by (simp add: Math_round_def)
  have r: "\<not> js_eq (rounded binary64 (Fin (annualRate ?inp) / Fin 100)) (Fin 0)"
    by (simp add: binary64_more_steps)
  from computeMortgage_rounded_rate(3) [OF r]
  have rows: "\<forall>i<512. rate_row_rounded binary64 NaN
                 (rounded binary64 (Fin (annualRate ?inp) / Fin 100)) 512 1000
                 (schedule (computeMortgage_rounded binary64 ?inp)) i"
    unfolding n payment_1000_300_512 by simp
  have "endingBalance (schedule (computeMortgage_rounded binary64 ?inp) ! 0) = NaN"
    by (rule nan_payment_balance [OF rows]) simp_all
  moreover have "endingBalance (schedule (computeMortgage_rounded binary64 ?inp) ! 511) = NaN"
    by (rule nan_payment_balance [OF rows]) simp_all
  ultimately show ?thesis by simp
qed

text \<open>
  Claim C3, as the code has it. For a loan amount above 0, a rate of at least 0 and a
  rounded term \<open>n\<close> of at least one year. In the double arithmetic of the code, for a loan
  amount that is a double: when the rate is 0, or the principal component of the first
  row is at least 0 (the payment covers the interest of the first year), every ending
  balance is at least 0 and at most the balance before its row (the loan amount for the
  first row), and the last one is 0; and for every input, every ending balance is \<^verbatim>\<open>NaN\<close>
  or at least 0, and the last one is 0 whenever the balance before the last row is finite.
  When nothing is rounded: every ending balance is at least 0 and at most the balance
  before its row, and the last one is 0.
\<close>

theorem balance_monotone:
  assumes "0 < loanAmount inp" and "0 \<le> annualRate inp" and "1 \<le> Math_round (years inp)"
  shows "(binary64 (loanAmount inp) = Fin (loanAmount inp) \<and>
          (annualRate inp = 0 \<or>
           js_le (Fin 0) (row.principal (schedule (computeMortgage_rounded binary64 inp) ! 0))) \<longrightarrow>
            (\<forall>i < nat (Math_round (years inp)).
               js_le (Fin 0) (endingBalance (schedule (computeMortgage_rounded binary64 inp) ! i)) \<and>
               js_le (endingBalance (schedule (computeMortgage_rounded binary64 inp) ! i))
                 (balance_before (loanAmount inp)
                    (schedule (computeMortgage_rounded binary64 inp)) i)) \<and>
            js_eq (endingBalance (schedule (computeMortgage_rounded binary64 inp)
                                    ! (nat (Math_round (years inp)) - 1)))
              (Fin 0)) \<and>
         (\<forall>i < nat (Math_round (years inp)).
            endingBalance (schedule (computeMortgage_rounded binary64 inp) ! i) = NaN \<or>
            js_le (Fin 0) (endingBalance (schedule (computeMortgage_rounded binary64 inp) ! i))) \<and>
         (js_isFinite (balance_before (loanAmount inp)
                         (schedule (computeMortgage_rounded binary64 inp))
                         (nat (Math_round (years inp)) - 1)) \<longrightarrow>
            endingBalance (schedule (computeMortgage_rounded binary64 inp)
                             ! (nat (Math_round (years inp)) - 1)) = Fin 0) \<and>
         (\<forall>i < nat (Math_round (years inp)).
            js_le (Fin 0) (endingBalance (schedule (computeMortgage_rounded Fin inp) ! i)) \<and>
            js_le (endingBalance (schedule (computeMortgage_rounded Fin inp) ! i))
              (balance_before (loanAmount inp) (schedule (computeMortgage_rounded Fin inp)) i)) \<and>
         js_eq (endingBalance (schedule (computeMortgage_rounded Fin inp)
                                 ! (nat (Math_round (years inp)) - 1)))
           (Fin 0)"
proof -
  let ?S = "schedule (computeMortgage_rounded binary64 inp)"
  let ?N = "nat (Math_round (years inp))"
  have P: "0 \<le> loanAmount inp" using assms(1) by simp
  have "(\<forall>i < ?N. js_le (Fin 0) (endingBalance (?S ! i)) \<and>
                   js_le (endingBalance (?S ! i)) (balance_before (loanAmount inp) ?S i)) \<and>
        js_eq (endingBalance (?S ! (?N - 1))) (Fin 0)"
    if d: "binary64 (loanAmount inp) = Fin (loanAmount inp)"
      and f: "annualRate inp = 0 \<or> js_le (Fin 0) (row.principal (?S ! 0))"
  proof -
    from f have "js_le (Fin 0) (row.principal (?S ! 0))"
      using first_principal_zero_rate [OF P _ assms(3)] by blast
    from balances_in_doubles [OF P d assms(2,3) this] show ?thesis by simp
  qed
  moreover have "\<forall>i < ?N. endingBalance (?S ! i) = NaN \<or> js_le (Fin 0) (endingBalance (?S ! i))"
    using Math_max_0_nonneg by (simp add: ending_balance_rounded(1))
  moreover have "js_isFinite (balance_before (loanAmount inp) ?S (?N - 1)) \<longrightarrow>
                   endingBalance (?S ! (?N - 1)) = Fin 0"
    using final_balance_rounded [of inp binary64] assms(3) by simp
  ultimately show ?thesis
    using exact_balances [OF assms(1-3)]
    unfolding computeMortgage_rounded_Fin by blast
qed

theorem balance_monotone_witness:
  "0 < loanAmount \<lparr>loanAmount = 1000, annualRate = 25 / 2, years = 3\<rparr> \<and>
   0 \<le> annualRate \<lparr>loanAmount = 1000, annualRate = 25 / 2, years = 3\<rparr> \<and>
   1 \<le> Math_round (years \<lparr>loanAmount = 1000, annualRate = 25 / 2, years = 3\<rparr>) \<and>
   binary64 1000 = Fin 1000 \<and>
   js_le (Fin 0) (row.principal (schedule
     (computeMortgage_rounded binary64 \<lparr>loanAmount = 1000, annualRate = 25 / 2, years = 3\<rparr>) ! 0)) \<and>
   map endingBalance (schedule
     (computeMortgage_rounded binary64 \<lparr>loanAmount = 1000, annualRate = 25 / 2, years = 3\<rparr>))
     = [Fin (3100926802759963 / 4398046511104), Fin (3283334261745843 / 8796093022208), Fin 0] \<and>
   js_le (Fin (3100926802759963 / 4398046511104)) (Fin 1000) \<and>
   js_le (Fin (3283334261745843 / 8796093022208)) (Fin (3100926802759963 / 4398046511104)) \<and>
   js_le (Fin 0) (Fin (3283334261745843 / 8796093022208)) \<and>
   js_eq (endingBalance (schedule
     (computeMortgage_rounded binary64 \<lparr>loanAmount = 1000, annualRate = 25 / 2, years = 3\<rparr>) ! 2))
     (Fin 0) \<and>
   js_isFinite (balance_before 1000 (schedule
     (computeMortgage_rounded binary64 \<lparr>loanAmount = 1000, annualRate = 25 / 2, years = 3\<rparr>)) 2) \<and>
   map endingBalance (schedule
     (computeMortgage_rounded Fin \<lparr>loanAmount = 1000, annualRate = 25 / 2, years = 3\<rparr>))
     = [Fin (153000 / 217), Fin (81000 / 217), Fin 0] \<and>
   js_le (Fin (153000 / 217)) (Fin 1000) \<and>
   js_le (Fin (81000 / 217)) (Fin (153000 / 217)) \<and>
   js_le (Fin 0) (Fin (81000 / 217)) \<and>
   js_eq (endingBalance (schedule
     (computeMortgage_rounded Fin \<lparr>loanAmount = 1000, annualRate = 25 / 2, years = 3\<rparr>) ! 2))
     (Fin 0)"
proof -
  let ?inp = "\<lparr>loanAmount = 1000, annualRate = 25 / 2, years = 3\<rparr>"
  let ?S = "schedule (computeMortgage_rounded binary64 ?inp)"
  let ?E = "schedule (computeMortgage_rounded Fin ?inp)"
  have n: "Math_round 3 = 3" by (simp add: Math_round_def)
  have h: "0 < loanAmount ?inp \<and> 0 \<le> annualRate ?inp \<and> 1 \<le> Math_round (years ?inp)"
    by (simp add: n)
  have d: "binary64 1000 = Fin 1000" by (simp add: binary64_more_steps)
  have f: "js_le (Fin 0) (row.principal (?S ! 0))"
    by (simp add: run_binary64_1000_12_5_3)
  have S: "map endingBalance ?S
     = [Fin (3100926802759963 / 4398046511104), Fin (3283334261745843 / 8796093022208), Fin 0]"
    by (simp add: run_binary64_1000_12_5_3)
  have E: "map endingBalance ?E = [Fin (153000 / 217), Fin (81000 / 217), Fin 0]"
    by (simp add: run_exact_1000_12_5_3)
  have fin: "js_isFinite (balance_before 1000 ?S 2)"
    by (simp add: balance_before_def run_binary64_1000_12_5_3)
  have sb: "balance_before 1000 ?S 0 = Fin 1000"
    "balance_before 1000 ?S 1 = Fin (3100926802759963 / 4398046511104)"
    "balance_before 1000 ?S 2 = Fin (3283334261745843 / 8796093022208)"
    "endingBalance (?S ! 0) = Fin (3100926802759963 / 4398046511104)"
    "endingBalance (?S ! 1) = Fin (3283334261745843 / 8796093022208)"
    by (simp_all add: run_binary64_1000_12_5_3 balance_before_def)
  have bb: "balance_before 1000 ?E 0 = Fin 1000"
    "balance_before 1000 ?E 1 = Fin (153000 / 217)"
    "balance_before 1000 ?E 2 = Fin (81000 / 217)"
    "endingBalance (?E ! 0) = Fin (153000 / 217)"
    "endingBalance (?E ! 1) = Fin (81000 / 217)"
    by (simp_all add: run_exact_1000_12_5_3 balance_before_def)
  from balance_monotone [of ?inp] d f
  have t: "\<forall>i<3. js_le (Fin 0) (endingBalance (?S ! i)) \<and>
                  js_le (endingBalance (?S ! i)) (balance_before 1000 ?S i)"
    "js_eq (endingBalance (?S ! 2)) (Fin 0)"
    "\<forall>i<3. js_le (Fin 0) (endingBalance (?E ! i)) \<and>
            js_le (endingBalance (?E ! i)) (balance_before 1000 ?E i)"
    "js_eq (endingBalance (?E ! 2)) (Fin 0)"
    by (simp_all add: n)
  from t(1) [rule_format, of 0] t(1) [rule_format, of 1] t(1) [rule_format, of 2]
  have ms: "js_le (Fin (3100926802759963 / 4398046511104)) (Fin 1000)"
    "js_le (Fin (3283334261745843 / 8796093022208)) (Fin (3100926802759963 / 4398046511104))"
    "js_le (Fin 0) (Fin (3283334261745843 / 8796093022208))"
    unfolding sb by simp_all
  from t(3) [rule_format, of 0] t(3) [rule_format, of 1] t(3) [rule_format, of 2]
  have m: "js_le (Fin (153000 / 217)) (Fin 1000)"
    "js_le (Fin (81000 / 217)) (Fin (153000 / 217))"
    "js_le (Fin 0) (Fin (81000 / 217))"
    unfolding bb by simp_all
  from h d f S ms t(2) fin E m t(4) show ?thesis by blast
qed

text \<open>
  Claim C4 says that in the positive-rate branch the override of the last year clears the
  loan exactly. For loan amount 1000, rate 300 and a term of 512 years it does not: the
  payment is \<^verbatim>\<open>NaN\<close> (the power \<open>4 ^ 512\<close> overflows), so the balance before the last year
  is \<^verbatim>\<open>NaN\<close>, the principal component of the last year, which is that balance, is \<^verbatim>\<open>NaN\<close>,
  and the last ending balance is \<^verbatim>\<open>NaN\<close>, not 0.
\<close>

theorem final_year_clamp_counterexample:
  "\<not> js_eq (rounded binary64
             (Fin (annualRate \<lparr>loanAmount = 1000, annualRate = 300, years = 512\<rparr>) / Fin 100))
       (Fin 0) \<and>
   balance_before 1000 (schedule (computeMortgage_rounded binary64
      \<lparr>loanAmount = 1000, annualRate = 300, years = 512\<rparr>)) 511 = NaN \<and>
   row.principal (schedule (computeMortgage_rounded binary64
      \<lparr>loanAmount = 1000, annualRate = 300, years = 512\<rparr>) ! 511) = NaN \<and>
   endingBalance (schedule (computeMortgage_rounded binary64
      \<lparr>loanAmount = 1000, annualRate = 300, years = 512\<rparr>) ! 511) = NaN \<and>
   \<not> js_eq NaN (Fin 0)"
proof -
  let ?inp = "\<lparr>loanAmount = 1000, annualRate = 300, years = 512\<rparr>"
  let ?S = "schedule (computeMortgage_rounded binary64 ?inp)"
  have n: "Math_round (years ?inp) = 512" by (simp add: Math_round_def)
  have r: "\<not> js_eq (rounded binary64 (Fin (annualRate ?inp) / Fin 100)) (Fin 0)"
    by (simp add: binary64_more_steps)
  from computeMortgage_rounded_rate(3) [OF r]
  have rows: "\<forall>i<512. rate_row_rounded binary64 NaN
                 (rounded binary64 (Fin (annualRate ?inp) / Fin 100)) 512 1000 ?S i"
    unfolding n payment_1000_300_512 by simp
  have "endingBalance (?S ! 510) = NaN"
    by (rule nan_payment_balance [OF rows]) simp_all
  then have bb: "balance_before 1000 ?S 511 = NaN"
    by (simp add: balance_before_def)
  moreover from rows have "rate_row_rounded binary64 NaN
                 (rounded binary64 (Fin (annualRate ?inp) / Fin 100)) 512 1000 ?S 511"
    by simp
  then have "row.principal (?S ! 511) = balance_before 1000 ?S 511"
    by (simp add: rate_row_rounded_def)
  moreover have "endingBalance (?S ! 511) = NaN"
    by (rule nan_payment_balance [OF rows]) simp_all
  ultimately show ?thesis using r by simp
qed

text \<open>
  Claim C4, as the code has it. For a rate above 0 whose hundredth is not 0 as the
  arithmetic gives it (which is when the code takes the positive-rate branch) and a
  rounded term \<open>n\<close> of at least one year, in the arithmetic of the code and in any other
  whose rounding leaves 0 as it is: in every row, the last included, the interest is the
  product of the balance before the row and \<open>r\<close>; the principal component is the
  difference of the payment and that interest in every row but the last, where it is the
  balance before the row; the last ending balance is 0 whenever the balance before the
  last row is finite, and always when nothing is rounded. In the double arithmetic of
  the code that balance is finite, and the last ending balance 0, for a loan amount that
  is a double of at least 0 when the principal component of the first row is at least 0.
  In the witness, the double arithmetic of the code on 1000, 12.5, 2, the principal
  component of the last row is the balance 529.4117647058823 before it and not the
  difference 529.4117647058824 of the payment and the interest.
\<close>

theorem final_year_clamp:
  assumes "0 < annualRate inp"
    and "\<not> js_eq (rounded rd (Fin (annualRate inp) / Fin 100)) (Fin 0)"
    and "1 \<le> Math_round (years inp)" and "rd 0 = Fin 0"
  shows "(\<forall>i < nat (Math_round (years inp)).
           row.interest (schedule (computeMortgage_rounded rd inp) ! i) =
             rounded rd
               (balance_before (loanAmount inp) (schedule (computeMortgage_rounded rd inp)) i
                  * rounded rd (Fin (annualRate inp) / Fin 100)) \<and>
           row.principal (schedule (computeMortgage_rounded rd inp) ! i) =
             (if int i + 1 = Math_round (years inp)
              then balance_before (loanAmount inp) (schedule (computeMortgage_rounded rd inp)) i
              else rounded rd
                     (result.payment (computeMortgage_rounded rd inp)
                        - row.interest (schedule (computeMortgage_rounded rd inp) ! i)))) \<and>
         (js_isFinite (balance_before (loanAmount inp) (schedule (computeMortgage_rounded rd inp))
                         (nat (Math_round (years inp)) - 1)) \<longrightarrow>
            endingBalance (schedule (computeMortgage_rounded rd inp)
                             ! (nat (Math_round (years inp)) - 1)) = Fin 0) \<and>
         endingBalance (schedule (computeMortgage_rounded Fin inp)
                          ! (nat (Math_round (years inp)) - 1)) = Fin 0 \<and>
         (0 \<le> loanAmount inp \<and> binary64 (loanAmount inp) = Fin (loanAmount inp) \<and>
          js_le (Fin 0) (row.principal (schedule (computeMortgage_rounded binary64 inp) ! 0)) \<longrightarrow>
            endingBalance (schedule (computeMortgage_rounded binary64 inp)
                             ! (nat (Math_round (years inp)) - 1)) = Fin 0)"
proof -
  let ?n = "Math_round (years inp)"
  have n: "0 \<le> ?n" and last: "nat ?n - 1 < nat ?n" "int (nat ?n - 1) + 1 = ?n"
    using assms(3) by simp_all
  have "\<forall>i < nat ?n.
           row.interest (schedule (computeMortgage_rounded rd inp) ! i) =
             rounded rd
               (balance_before (loanAmount inp) (schedule (computeMortgage_rounded rd inp)) i
                  * rounded rd (Fin (annualRate inp) / Fin 100)) \<and>
           row.principal (schedule (computeMortgage_rounded rd inp) ! i) =
             (if int i + 1 = ?n
              then balance_before (loanAmount inp) (schedule (computeMortgage_rounded rd inp)) i
              else rounded rd
                     (result.payment (computeMortgage_rounded rd inp)
                        - row.interest (schedule (computeMortgage_rounded rd inp) ! i)))"
    using computeMortgage_rounded_rate(3) [OF assms(2) n]
    by (simp add: rate_row_rounded_def)
  moreover have "js_isFinite (balance_before (loanAmount inp)
                     (schedule (computeMortgage_rounded rd inp)) (nat ?n - 1)) \<longrightarrow>
            endingBalance (schedule (computeMortgage_rounded rd inp) ! (nat ?n - 1)) = Fin 0"
    using final_balance_rounded [of inp rd] assms(3,4) by blast
  moreover have "endingBalance (schedule (computeMortgage_rounded Fin inp) ! (nat ?n - 1)) = Fin 0"
    using exact_final_year [OF assms(1,3), rule_format, OF last(1)] last(2)
    unfolding computeMortgage_rounded_Fin by simp
  moreover have "0 \<le> loanAmount inp \<and> binary64 (loanAmount inp) = Fin (loanAmount inp) \<and>
          js_le (Fin 0) (row.principal (schedule (computeMortgage_rounded binary64 inp) ! 0)) \<longrightarrow>
            endingBalance (schedule (computeMortgage_rounded binary64 inp) ! (nat ?n - 1)) = Fin 0"
    using balances_in_doubles(2) [of inp] assms(1,3) by simp
  ultimately show ?thesis by blast
qed

theorem final_year_clamp_witness:
  "0 < annualRate \<lparr>loanAmount = 1000, annualRate = 25 / 2, years = 2\<rparr> \<and>
   \<not> js_eq (rounded binary64
             (Fin (annualRate \<lparr>loanAmount = 1000, annualRate = 25 / 2, years = 2\<rparr>) / Fin 100))
       (Fin 0) \<and>
   1 \<le> Math_round (years \<lparr>loanAmount = 1000, annualRate = 25 / 2, years = 2\<rparr>) \<and>
   binary64 0 = Fin 0 \<and> binary64 1000 = Fin 1000 \<and>
   js_le (Fin 0) (row.principal (schedule
     (computeMortgage_rounded binary64 \<lparr>loanAmount = 1000, annualRate = 25 / 2, years = 2\<rparr>) ! 0)) \<and>
   balance_before 1000 (schedule
     (computeMortgage_rounded binary64 \<lparr>loanAmount = 1000, annualRate = 25 / 2, years = 2\<rparr>)) 1
     = Fin (4656755129404235 / 8796093022208) \<and>
   row.interest (schedule
     (computeMortgage_rounded binary64 \<lparr>loanAmount = 1000, annualRate = 25 / 2, years = 2\<rparr>) ! 1)
     = rounded binary64 (Fin (4656755129404235 / 8796093022208) * Fin (1 / 8)) \<and>
   row.principal (schedule
     (computeMortgage_rounded binary64 \<lparr>loanAmount = 1000, annualRate = 25 / 2, years = 2\<rparr>) ! 1)
     = Fin (4656755129404235 / 8796093022208) \<and>
   rounded binary64
     (result.payment
        (computeMortgage_rounded binary64 \<lparr>loanAmount = 1000, annualRate = 25 / 2, years = 2\<rparr>)
      - row.interest (schedule
          (computeMortgage_rounded binary64 \<lparr>loanAmount = 1000, annualRate = 25 / 2, years = 2\<rparr>) ! 1))
     = Fin (1164188782351059 / 2199023255552) \<and>
   Fin (1164188782351059 / 2199023255552) \<noteq> Fin (4656755129404235 / 8796093022208) \<and>
   endingBalance (schedule
     (computeMortgage_rounded binary64 \<lparr>loanAmount = 1000, annualRate = 25 / 2, years = 2\<rparr>) ! 1)
     = Fin 0 \<and>
   row.principal (schedule
     (computeMortgage_rounded binary64 \<lparr>loanAmount = 1000, annualRate = 25 / 2, years = 2\<rparr>) ! 0)
     = rounded binary64
         (result.payment
            (computeMortgage_rounded binary64 \<lparr>loanAmount = 1000, annualRate = 25 / 2, years = 2\<rparr>)
          - Fin 125) \<and>
   endingBalance (schedule
     (computeMortgage_rounded Fin \<lparr>loanAmount = 1000, annualRate = 25 / 2, years = 2\<rparr>) ! 1)
     = Fin 0"
proof -
  let ?inp = "\<lparr>loanAmount = 1000, annualRate = 25 / 2, years = 2\<rparr>"
  let ?S = "schedule (computeMortgage_rounded binary64 ?inp)"
  have n: "Math_round 2 = 2" by (simp add: Math_round_def)
  have h: "0 < annualRate ?inp \<and>
           \<not> js_eq (rounded binary64 (Fin (annualRate ?inp) / Fin 100)) (Fin 0) \<and>
           1 \<le> Math_round (years ?inp) \<and> binary64 0 = Fin 0 \<and> binary64 1000 = Fin 1000 \<and>
           js_le (Fin 0) (row.principal (?S ! 0))"
    by (simp add: n binary64_steps binary64_more_steps run_binary64_1000_12_5_2)
  have bb: "balance_before 1000 ?S 1 = Fin (4656755129404235 / 8796093022208)"
    "balance_before 1000 ?S 0 = Fin 1000"
    by (simp_all add: balance_before_def run_binary64_1000_12_5_2)
  have i0: "row.interest (?S ! 0) = Fin 125"
    by (simp add: run_binary64_1000_12_5_2)
  have u: "rounded binary64 (result.payment (computeMortgage_rounded binary64 ?inp)
                              - row.interest (?S ! 1))
             = Fin (1164188782351059 / 2199023255552)"
    by (simp add: run_binary64_1000_12_5_2 binary64_more_steps)
  have d: "Fin (1164188782351059 / 2199023255552) \<noteq> Fin (4656755129404235 / 8796093022208)"
    by simp
  from h final_year_clamp [of ?inp binary64]
  have t: "\<forall>i<2. row.interest (?S ! i)
                   = rounded binary64 (balance_before 1000 ?S i * Fin (1 / 8)) \<and>
                 row.principal (?S ! i) =
                   (if int i + 1 = 2 then balance_before 1000 ?S i
                    else rounded binary64
                           (result.payment (computeMortgage_rounded binary64 ?inp)
                              - row.interest (?S ! i)))"
    "endingBalance (schedule (computeMortgage_rounded Fin ?inp) ! 1) = Fin 0"
    "endingBalance (?S ! 1) = Fin 0"
    by (simp_all add: n binary64_steps)
  from t(1) [rule_format, of 1] bb
  have r1: "row.interest (?S ! 1)
              = rounded binary64 (Fin (4656755129404235 / 8796093022208) * Fin (1 / 8))"
    "row.principal (?S ! 1) = Fin (4656755129404235 / 8796093022208)"
    by simp_all
  from t(1) [rule_format, of 0] i0
  have r0: "row.principal (?S ! 0)
              = rounded binary64
                  (result.payment (computeMortgage_rounded binary64 ?inp) - Fin 125)"
    by simp
  from h bb(1) r1 u d r0 t(2,3) show ?thesis by blast
qed

text \<open>
  Claim C5 says that a call with a loan amount of at most 0, a term below one year or
  inputs that give non-finite values signals an error instead of returning a result.
  It does not: the call with loan amount 100, rate 0 and a term of 0 years returns, with
  payment \<^verbatim>\<open>Infinity\<close>, an empty schedule and total payment \<^verbatim>\<open>NaN\<close>.
\<close>

theorem invalid_input_counterexample:
  "computeMortgage_call \<lparr>loanAmount = 100, annualRate = 0, years = 0\<rparr> =
     Inr \<lparr>result.payment = PInf, schedule = [],
          totals = \<lparr>totals.payment = NaN, totals.interest = Fin 0,
                    totals.principal = Fin 100\<rparr>\<rparr>"
  by (simp add: computeMortgage_call_def run_100_0_0)

text \<open>
  Claim C5, as the code has it: \<^verbatim>\<open>computeMortgage\<close> checks nothing and signals no error,
  whatever the input. It returns a result whose schedule has as many rows as the rounded
  term says (none when that is below 1), and whose payment is not a finite number when the
  term rounds to 0.
\<close>

theorem no_input_validation:
  "(\<forall>e. computeMortgage_call inp \<noteq> Inl e) \<and>
   length (schedule (computeMortgage inp)) = nat (Math_round (years inp)) \<and>
   (Math_round (years inp) < 1 \<longrightarrow> schedule (computeMortgage inp) = []) \<and>
   (Math_round (years inp) = 0 \<longrightarrow> result.payment (computeMortgage inp) \<notin> range Fin)"
proof -
  have "result.payment (computeMortgage inp) \<notin> range Fin" if n: "Math_round (years inp) = 0"
  proof (cases "annualRate inp = 0")
    case True
    then show ?thesis
      using computeMortgage_zero(1) [of inp] n by auto
  next
    case False
    then show ?thesis
      using computeMortgage_rate(1) [of inp] n by (auto simp: Math_pow_def)
  qed
  then show ?thesis
    by (simp add: computeMortgage_call_def schedule_length computeMortgage_no_rows)
qed

theorem no_input_validation_witness:
  "Math_round (years \<lparr>loanAmount = 100, annualRate = 0, years = 0\<rparr>) < 1 \<and>
   Math_round (years \<lparr>loanAmount = 100, annualRate = 0, years = 0\<rparr>) = 0 \<and>
   computeMortgage_call \<lparr>loanAmount = 100, annualRate = 0, years = 0\<rparr> \<noteq> Inl InvalidInput \<and>
   schedule (computeMortgage \<lparr>loanAmount = 100, annualRate = 0, years = 0\<rparr>) = [] \<and>
   result.payment (computeMortgage \<lparr>loanAmount = 100, annualRate = 0, years = 0\<rparr>) \<notin> range Fin"
proof -
  have n: "Math_round 0 = 0" by (simp add: Math_round_def)
  show ?thesis
    using no_input_validation [of "\<lparr>loanAmount = 100, annualRate = 0, years = 0\<rparr>"]
    by (simp add: n)
qed




text \<open>
  Claim C7 says that the total principal equals the loan amount up to floating-point
  tolerance for every valid input. In the double arithmetic of the code it does not: with
  loan amount 1000, a rate of \<open>2\<^bsup>-50\<^esup>\<close> percent and a term of 3 years the payment is
  \<^verbatim>\<open>Infinity\<close>, the principal components are \<^verbatim>\<open>Infinity\<close>, \<^verbatim>\<open>Infinity\<close> and 0, and the total
  principal is \<^verbatim>\<open>Infinity\<close>.
\<close>

theorem total_principal_counterexample:
  "totals.principal (totals
     (computeMortgage_rounded binary64
        \<lparr>loanAmount = 1000, annualRate = 1 / 1125899906842624, years = 3\<rparr>)) = PInf \<and>
   map row.principal (schedule
     (computeMortgage_rounded binary64
        \<lparr>loanAmount = 1000, annualRate = 1 / 1125899906842624, years = 3\<rparr>))
     = [PInf, PInf, Fin 0] \<and>
   \<not> within_tolerance PInf (Fin 1000)"
  by (simp add: run_binary64_1000_tiny_3)

text \<open>
  Claim C7, as the code has it. For a loan amount above 0, a rate of at least 0 and a
  rounded term of at least one year: whatever the rounding, the total principal is the
  loan amount itself in the zero-rate branch, and in the positive-rate branch the sum of
  the principal components of the rows, added in row order from 0 and rounded at each
  addition; and when nothing is rounded, the total principal is the loan amount, and so
  is the sum of the principal components. In the double arithmetic of the code, the total
  principal is within the relative tolerance \<^verbatim>\<open>1e-6\<close> of the loan amount whenever the loan
  amount is a double between \<open>2\<^bsup>-1022\<^esup>\<close> and \<open>2\<^bsup>1000\<^esup>\<close>, the term is at most \<open>2\<^bsup>20\<^esup>\<close>
  years, the principal component of the first row is not negative and the balance before
  the final row is above 0, that is, the loan is not paid off before the final year. In
  the witness, the double arithmetic of the code on 1000, 12.5, 3, the total principal is
  999.9999999999999.
\<close>

theorem total_principal_is_loan:
  assumes "0 < loanAmount inp" and "0 \<le> annualRate inp" and "1 \<le> Math_round (years inp)"
  shows "totals.principal (totals (computeMortgage_rounded rd inp))
           = (if js_eq (rounded rd (Fin (annualRate inp) / Fin 100)) (Fin 0)
              then Fin (loanAmount inp)
              else foldl (\<lambda>a x. rounded rd (a + x)) (Fin 0)
                     (map row.principal (schedule (computeMortgage_rounded rd inp)))) \<and>
         totals.principal (totals (computeMortgage_rounded Fin inp)) = Fin (loanAmount inp) \<and>
         foldl (+) (Fin 0) (map row.principal (schedule (computeMortgage_rounded Fin inp)))
           = Fin (loanAmount inp) \<and>
         (binary64 (loanAmount inp) = Fin (loanAmount inp) \<and>
          2 powi (- 1022) \<le> loanAmount inp \<and> loanAmount inp \<le> 2 powi 1000 \<and>
          Math_round (years inp) \<le> 2 ^ 20 \<and>
          js_le (Fin 0) (row.principal (schedule (computeMortgage_rounded binary64 inp) ! 0)) \<and>
          \<not> js_le (balance_before (loanAmount inp)
                       (schedule (computeMortgage_rounded binary64 inp))
                       (nat (Math_round (years inp)) - 1)) (Fin 0) \<longrightarrow>
            within_tolerance (totals.principal (totals (computeMortgage_rounded binary64 inp)))
              (Fin (loanAmount inp)))"
proof -
  have "totals.principal (totals (computeMortgage_rounded rd inp))
           = (if js_eq (rounded rd (Fin (annualRate inp) / Fin 100)) (Fin 0)
              then Fin (loanAmount inp)
              else foldl (\<lambda>a x. rounded rd (a + x)) (Fin 0)
                     (map row.principal (schedule (computeMortgage_rounded rd inp))))"
    using assms(3) by (intro totals_principal_rounded) simp
  moreover have "0 \<le> loanAmount inp" using assms(1) by simp
  note total_principal_in_doubles [OF this _ assms(2,3)]
  ultimately show ?thesis
    using exact_total_principal [OF assms]
    unfolding computeMortgage_rounded_Fin by blast
qed

theorem total_principal_is_loan_witness:
  "0 < loanAmount \<lparr>loanAmount = 1000, annualRate = 25 / 2, years = 3\<rparr> \<and>
   0 \<le> annualRate \<lparr>loanAmount = 1000, annualRate = 25 / 2, years = 3\<rparr> \<and>
   1 \<le> Math_round (years \<lparr>loanAmount = 1000, annualRate = 25 / 2, years = 3\<rparr>) \<and>
   \<not> js_eq (rounded binary64 (Fin (25 / 2) / Fin 100)) (Fin 0) \<and>
   map row.principal (schedule
     (computeMortgage_rounded binary64 \<lparr>loanAmount = 1000, annualRate = 25 / 2, years = 3\<rparr>))
     = [Fin (5188478833376147 / 17592186044416), Fin (2918519343774083 / 8796093022208),
        Fin (3283334261745843 / 8796093022208)] \<and>
   totals.principal (totals
     (computeMortgage_rounded binary64 \<lparr>loanAmount = 1000, annualRate = 25 / 2, years = 3\<rparr>))
     = foldl (\<lambda>a x. rounded binary64 (a + x)) (Fin 0)
         [Fin (5188478833376147 / 17592186044416), Fin (2918519343774083 / 8796093022208),
          Fin (3283334261745843 / 8796093022208)] \<and>
   totals.principal (totals
     (computeMortgage_rounded binary64 \<lparr>loanAmount = 1000, annualRate = 25 / 2, years = 3\<rparr>))
     = Fin (8796093022207999 / 8796093022208) \<and>
   binary64 1000 = Fin 1000 \<and>
   balance_before 1000 (schedule
     (computeMortgage_rounded binary64 \<lparr>loanAmount = 1000, annualRate = 25 / 2, years = 3\<rparr>))
     2 = Fin (3283334261745843 / 8796093022208) \<and>
   within_tolerance (Fin (8796093022207999 / 8796093022208)) (Fin 1000) \<and>
   totals.principal (totals
     (computeMortgage_rounded Fin \<lparr>loanAmount = 1000, annualRate = 25 / 2, years = 3\<rparr>))
     = Fin 1000"
proof -
  let ?inp = "\<lparr>loanAmount = 1000, annualRate = 25 / 2, years = 3\<rparr>"
  have n: "Math_round 3 = 3" by (simp add: Math_round_def)
  have r: "\<not> js_eq (rounded binary64 (Fin (25 / 2) / Fin 100)) (Fin 0)"
    by (simp add: binary64_steps)
  have S: "map row.principal (schedule (computeMortgage_rounded binary64 ?inp))
     = [Fin (5188478833376147 / 17592186044416), Fin (2918519343774083 / 8796093022208),
        Fin (3283334261745843 / 8796093022208)]"
    by (simp add: run_binary64_1000_12_5_3)
  have v: "totals.principal (totals (computeMortgage_rounded binary64 ?inp))
             = Fin (8796093022207999 / 8796093022208)"
    by (simp add: run_binary64_1000_12_5_3)
  have d: "binary64 1000 = Fin 1000" by (simp add: binary64_more_steps)
  have b: "balance_before 1000 (schedule (computeMortgage_rounded binary64 ?inp)) 2
             = Fin (3283334261745843 / 8796093022208)"
    by (simp add: run_binary64_1000_12_5_3 balance_before_def)
  have h: "binary64 (loanAmount ?inp) = Fin (loanAmount ?inp) \<and>
           2 powi (- 1022) \<le> loanAmount ?inp \<and> loanAmount ?inp \<le> 2 powi 1000 \<and>
           Math_round (years ?inp) \<le> 2 ^ 20 \<and>
           js_le (Fin 0) (row.principal (schedule (computeMortgage_rounded binary64 ?inp) ! 0)) \<and>
           \<not> js_le (balance_before (loanAmount ?inp)
                        (schedule (computeMortgage_rounded binary64 ?inp))
                        (nat (Math_round (years ?inp)) - 1)) (Fin 0)"
  proof -
    have "(2::real) powi (- 1022) \<le> 1" by (simp add: power_int_def field_simps)
    moreover have "(1000::real) \<le> 2 powi 1000" by (simp add: power_int_def)
    moreover have "js_le (Fin 0)
        (row.principal (schedule (computeMortgage_rounded binary64 ?inp) ! 0))"
      by (simp add: run_binary64_1000_12_5_3)
    moreover have "nat (Math_round (years ?inp)) - 1 = 2" by (simp add: n)
    ultimately show ?thesis using d b by (simp add: n)
  qed
  from total_principal_is_loan [of ?inp binary64] r
  have *: "totals.principal (totals (computeMortgage_rounded binary64 ?inp))
     = foldl (\<lambda>a x. rounded binary64 (a + x)) (Fin 0)
         (map row.principal (schedule (computeMortgage_rounded binary64 ?inp)))"
    "totals.principal (totals (computeMortgage_rounded Fin ?inp)) = Fin 1000"
    by (simp_all add: n)
  have a: "0 < loanAmount ?inp" "0 \<le> annualRate ?inp" "1 \<le> Math_round (years ?inp)"
    by (simp_all add: n)
  from total_principal_is_loan [of ?inp binary64, OF a] h
  have "within_tolerance (totals.principal (totals (computeMortgage_rounded binary64 ?inp)))
          (Fin (loanAmount ?inp))"
    by blast
  then have w: "within_tolerance (Fin (8796093022207999 / 8796093022208)) (Fin 1000)"
    unfolding v by simp
  from *(1) have "totals.principal (totals (computeMortgage_rounded binary64 ?inp))
     = foldl (\<lambda>a x. rounded binary64 (a + x)) (Fin 0)
         [Fin (5188478833376147 / 17592186044416), Fin (2918519343774083 / 8796093022208),
          Fin (3283334261745843 / 8796093022208)]"
    unfolding S .
  moreover have "0 < loanAmount ?inp \<and> 0 \<le> annualRate ?inp \<and> 1 \<le> Math_round (years ?inp)"
    by (simp add: n)
  ultimately show ?thesis
    using *(2) r S v w d b by blast
qed



text \<open>
  Claim C10 says that in every row but the last interest plus principal component equals
  the payment exactly, not merely approximately. In the double arithmetic of the code it
  does not: with loan amount 1000, rate 12.5 and a term of 3 years, the row of year 2 has
  interest 88.13364055299539 and principal component 331.7972350230415, which add up to
  419.9308755760369, and the payment is 419.93087557603684.
\<close>

theorem row_identity_counterexample:
  "length (schedule (computeMortgage_rounded binary64
             \<lparr>loanAmount = 1000, annualRate = 25 / 2, years = 3\<rparr>)) = 3 \<and>
   schedule (computeMortgage_rounded binary64
               \<lparr>loanAmount = 1000, annualRate = 25 / 2, years = 3\<rparr>) ! 1 =
     \<lparr>year = 2, row.payment = Fin (7387502088928147 / 17592186044416),
      row.interest = Fin (3100926802759963 / 35184372088832),
      row.principal = Fin (2918519343774083 / 8796093022208),
      endingBalance = Fin (3283334261745843 / 8796093022208)\<rparr> \<and>
   rounded binary64
     (Fin (3100926802759963 / 35184372088832) + Fin (2918519343774083 / 8796093022208))
     = Fin (1846875522232037 / 4398046511104) \<and>
   \<not> js_eq (Fin (1846875522232037 / 4398046511104))
           (Fin (7387502088928147 / 17592186044416))"
  by (simp add: run_binary64_1000_12_5_3 binary64_step_20)

text \<open>
  Claim C10, as the code has it. For a loan amount above 0, a rate of at least 0 and a
  rounded term of at least one year: whatever the rounding, in every row but the last,
  in the zero-rate branch the interest is 0 and the principal component is the payment,
  and in the positive-rate branch the principal component is the rounded difference of
  payment and interest; and where nothing is rounded, interest plus principal component
  equals the payment in every row, the last included.
\<close>

theorem row_identity_before_final:
  assumes "0 < loanAmount inp" and "0 \<le> annualRate inp" and "1 \<le> Math_round (years inp)"
  shows "(\<forall>i. Suc i < nat (Math_round (years inp)) \<longrightarrow>
           (if js_eq (rounded rd (Fin (annualRate inp) / Fin 100)) (Fin 0)
            then row.interest (schedule (computeMortgage_rounded rd inp) ! i) = Fin 0 \<and>
                 row.principal (schedule (computeMortgage_rounded rd inp) ! i)
                   = row.payment (schedule (computeMortgage_rounded rd inp) ! i)
            else row.principal (schedule (computeMortgage_rounded rd inp) ! i)
                   = rounded rd (row.payment (schedule (computeMortgage_rounded rd inp) ! i)
                                  - row.interest (schedule (computeMortgage_rounded rd inp) ! i)))) \<and>
         (\<forall>i < nat (Math_round (years inp)).
           js_eq (row.interest (schedule (computeMortgage_rounded Fin inp) ! i)
                    + row.principal (schedule (computeMortgage_rounded Fin inp) ! i))
                 (row.payment (schedule (computeMortgage_rounded Fin inp) ! i)))"
proof (intro conjI allI impI)
  fix i assume si: "Suc i < nat (Math_round (years inp))"
  then have i: "i < nat (Math_round (years inp))"
    and ni: "int i + 1 \<noteq> Math_round (years inp)" by simp_all
  have n: "0 \<le> Math_round (years inp)" using assms(3) by simp
  have "i < length (schedule (computeMortgage_rounded rd inp))"
    using i by (simp add: computeMortgage_rounded_length [OF n])
  then show "if js_eq (rounded rd (Fin (annualRate inp) / Fin 100)) (Fin 0)
            then row.interest (schedule (computeMortgage_rounded rd inp) ! i) = Fin 0 \<and>
                 row.principal (schedule (computeMortgage_rounded rd inp) ! i)
                   = row.payment (schedule (computeMortgage_rounded rd inp) ! i)
            else row.principal (schedule (computeMortgage_rounded rd inp) ! i)
                   = rounded rd (row.payment (schedule (computeMortgage_rounded rd inp) ! i)
                                  - row.interest (schedule (computeMortgage_rounded rd inp) ! i))"
    using ni by (rule computeMortgage_rounded_rows)
next
  fix i assume i: "i < nat (Math_round (years inp))"
  let ?x = "schedule (computeMortgage inp) ! i"
  have "js_eq (row.interest ?x + row.principal ?x) (row.payment ?x)"
  proof (cases "annualRate inp = 0")
    case True
    from valid_zero(3) [OF assms(1) True assms(3), rule_format, OF i]
    show ?thesis by simp
  next
    case False
    with assms(2) have r: "0 < annualRate inp" by simp
    then have r0: "0 < annualRate inp / 100" by simp
    have N: "0 < nat (Math_round (years inp))" using assms(3) by simp
    from valid_rate(3) [OF assms(1) r assms(3), rule_format, OF i]
    show ?thesis
      by (simp add: rate_balance_Suc [OF r0 N] algebra_simps)
  qed
  then show "js_eq (row.interest (schedule (computeMortgage_rounded Fin inp) ! i)
                    + row.principal (schedule (computeMortgage_rounded Fin inp) ! i))
                 (row.payment (schedule (computeMortgage_rounded Fin inp) ! i))"
    by (simp only: computeMortgage_rounded_Fin)
qed

theorem row_identity_before_final_witness:
  "0 < loanAmount \<lparr>loanAmount = 1000, annualRate = 25 / 2, years = 3\<rparr> \<and>
   0 \<le> annualRate \<lparr>loanAmount = 1000, annualRate = 25 / 2, years = 3\<rparr> \<and>
   1 \<le> Math_round (years \<lparr>loanAmount = 1000, annualRate = 25 / 2, years = 3\<rparr>) \<and>
   Suc 1 < nat (Math_round (years \<lparr>loanAmount = 1000, annualRate = 25 / 2, years = 3\<rparr>)) \<and>
   \<not> js_eq (rounded binary64 (Fin (25 / 2) / Fin 100)) (Fin 0) \<and>
   row.principal (schedule (computeMortgage_rounded binary64
                    \<lparr>loanAmount = 1000, annualRate = 25 / 2, years = 3\<rparr>) ! 1)
     = rounded binary64
         (row.payment (schedule (computeMortgage_rounded binary64
                          \<lparr>loanAmount = 1000, annualRate = 25 / 2, years = 3\<rparr>) ! 1)
          - row.interest (schedule (computeMortgage_rounded binary64
                            \<lparr>loanAmount = 1000, annualRate = 25 / 2, years = 3\<rparr>) ! 1)) \<and>
   js_eq (row.interest (schedule (computeMortgage_rounded Fin
                          \<lparr>loanAmount = 1000, annualRate = 25 / 2, years = 3\<rparr>) ! 1)
            + row.principal (schedule (computeMortgage_rounded Fin
                               \<lparr>loanAmount = 1000, annualRate = 25 / 2, years = 3\<rparr>) ! 1))
         (row.payment (schedule (computeMortgage_rounded Fin
                         \<lparr>loanAmount = 1000, annualRate = 25 / 2, years = 3\<rparr>) ! 1)) \<and>
   js_eq (row.interest (schedule (computeMortgage_rounded Fin
                          \<lparr>loanAmount = 1000, annualRate = 25 / 2, years = 3\<rparr>) ! 2)
            + row.principal (schedule (computeMortgage_rounded Fin
                               \<lparr>loanAmount = 1000, annualRate = 25 / 2, years = 3\<rparr>) ! 2))
         (row.payment (schedule (computeMortgage_rounded Fin
                         \<lparr>loanAmount = 1000, annualRate = 25 / 2, years = 3\<rparr>) ! 2))"
proof -
  let ?inp = "\<lparr>loanAmount = 1000, annualRate = 25 / 2, years = 3\<rparr>"
  have n: "Math_round 3 = 3" by (simp add: Math_round_def)
  have a: "0 < loanAmount ?inp" "0 \<le> annualRate ?inp" "1 \<le> Math_round (years ?inp)"
    "Suc 1 < nat (Math_round (years ?inp))" "1 < nat (Math_round (years ?inp))"
    "2 < nat (Math_round (years ?inp))"
    by (simp_all add: n)
  have r: "js_eq (rounded binary64 (Fin (annualRate ?inp) / Fin 100)) (Fin 0) = False"
    by (simp add: binary64_step_1)
  note t = row_identity_before_final [OF a(1,2,3), of binary64]
  note t1 = conjunct1 [OF t, rule_format, OF a(4)]
  note t2 = conjunct2 [OF t, rule_format]
  have "row.principal (schedule (computeMortgage_rounded binary64 ?inp) ! 1)
     = rounded binary64
         (row.payment (schedule (computeMortgage_rounded binary64 ?inp) ! 1)
          - row.interest (schedule (computeMortgage_rounded binary64 ?inp) ! 1))"
    using t1 unfolding r if_False .
  moreover note t2 [OF a(5)] t2 [OF a(6)]
  moreover have "\<not> js_eq (rounded binary64 (Fin (25 / 2) / Fin 100)) (Fin 0)"
    using r by simp
  ultimately show ?thesis using a(1-4) by blast
qed

end
